theory Spec2Isabelle
  imports Main "HOL-Library.AList" "HOL-Library.Char_ord" "HOL-Library.List_Lexorder"
begin

section \<open>Strings\<close>

text \<open>
  Python strings are modelled as \<open>string\<close> (lists of 8-bit characters); the model covers
  ASCII text. \<open>is_space\<close> is the set of ASCII characters for which \<open>str.isspace\<close> holds,
  which is what \<open>str.strip()\<close> and \<open>str.split()\<close> without arguments cut at.
\<close>

definition is_space :: "char \<Rightarrow> bool" where
  "is_space c = (c \<in> set [CHR 0x09, CHR 0x0A, CHR 0x0B, CHR 0x0C, CHR 0x0D,
                            CHR 0x1C, CHR 0x1D, CHR 0x1E, CHR 0x1F, CHR 0x20])"

definition strip :: "string \<Rightarrow> string" where
  "strip s = rev (dropWhile is_space (rev (dropWhile is_space s)))"

definition startswith :: "string \<Rightarrow> string \<Rightarrow> bool" where
  "startswith s p = (take (length p) s = p)"

definition endswith :: "string \<Rightarrow> string \<Rightarrow> bool" where
  "endswith s p = (length p \<le> length s \<and> drop (length s - length p) s = p)"

text \<open>\<open>s.split()[0]\<close> for a string that is not empty and starts with no white space.\<close>

definition first_token :: "string \<Rightarrow> string" where
  "first_token s = takeWhile (\<lambda>c. \<not> is_space c) s"

text \<open>\<open>str.lower()\<close> on ASCII.\<close>

definition lower_char :: "char \<Rightarrow> char" where
  "lower_char c = (let n = (of_char c :: nat) in
                   if 65 \<le> n \<and> n \<le> 90 then char_of (n + 32) else c)"

definition lower :: "string \<Rightarrow> string" where
  "lower s = map lower_char s"

text \<open>\<open>sep.join(xs)\<close>.\<close>

fun join :: "string \<Rightarrow> string list \<Rightarrow> string" where
  "join sep [] = []"
| "join sep [x] = x"
| "join sep (x # y # xs) = x @ sep @ join sep (y # xs)"

text \<open>
  \<open>s.split(sep)\<close> for a separator of two characters \<open>a\<close>, \<open>b\<close> (the source splits at
  \<open>"; "\<close> and at \<open>" ("\<close> only): \<open>split2 a b [] s\<close>. The second argument is the piece
  read so far.
\<close>

fun split2 :: "char \<Rightarrow> char \<Rightarrow> string \<Rightarrow> string \<Rightarrow> string list" where
  "split2 a b cur (x # y # rest) =
     (if x = a \<and> y = b then cur # split2 a b [] rest
      else split2 a b (cur @ [x]) (y # rest))"
| "split2 a b cur rest = [cur @ rest]"

text \<open>
  \<open>os.path.splitext(name)[0]\<close> for a name without a path separator: the name up to its
  last dot, unless only dots stand before that dot (then the name has no extension and is
  returned whole, as for \<open>.yml\<close>).
\<close>

definition splitext_stem :: "string \<Rightarrow> string" where
  "splitext_stem name =
     (if CHR ''.'' \<notin> set name then name
      else let root = rev (tl (dropWhile (\<lambda>c. c \<noteq> CHR ''.'') (rev name)))
           in if \<forall>c \<in> set root. c = CHR ''.'' then name else root)"

definition is_var_file :: "string \<Rightarrow> bool" where
  "is_var_file file_name = (endswith file_name ''.yaml'' \<or> endswith file_name ''.yml'')"

section \<open>Dictionaries\<close>

text \<open>
  A Python \<open>dict\<close> is an association list in insertion order. \<open>d[k] = v\<close> is
  \<open>AList.update k v d\<close>: it replaces the value of a key in place and appends a new key.
  \<open>dict_append\<close> is \<open>d[k].append(x)\<close> on a \<open>defaultdict(list)\<close>.
\<close>

type_synonym ('k, 'v) dict = "('k \<times> 'v) list"

definition keys :: "('k, 'v) dict \<Rightarrow> 'k list" where
  "keys d = map fst d"

definition dict_get_list :: "('k, 'v list) dict \<Rightarrow> 'k \<Rightarrow> 'v list" where
  "dict_get_list d k = (case map_of d k of None \<Rightarrow> [] | Some xs \<Rightarrow> xs)"

definition dict_append :: "'k \<Rightarrow> 'v \<Rightarrow> ('k, 'v list) dict \<Rightarrow> ('k, 'v list) dict" where
  "dict_append k x d = AList.update k (dict_get_list d k @ [x]) d"

section \<open>The inventory on disk\<close>

text \<open>
  What \<open>yaml.safe_load\<close> does on a variable file: it raises \<open>YAMLError\<close>, or returns a
  falsy value (an empty file, \<open>null\<close>, an empty collection), or a mapping, or a truthy
  value that is no mapping (a sequence, a scalar). Variable names are strings; the values
  are of an arbitrary type \<open>'v\<close> and only compared.
\<close>

datatype 'v parse = YAMLError | Falsy | MapDoc "(string, 'v) dict" | OtherDoc 'v

text \<open>What \<open>load_yaml_file\<close> returns: a dictionary or some other Python value.\<close>

datatype 'v loaded = Dict "(string, 'v) dict" | NonDict 'v

text \<open>
  A directory is its listing (\<open>os.listdir\<close>) with the content of each file; a flat
  directory of regular files, so a path exists when its name is listed. The membership
  file \<open>hosts\<close> is its list of lines, each with its line end. \<open>None\<close> is a missing file
  or directory.
\<close>

type_synonym 'v directory = "(string \<times> 'v parse) list"

record 'v inventory =
  hosts_file :: "string list option"
  group_vars_dir :: "'v directory option"
  host_vars_dir :: "'v directory option"

datatype error = FileNotFoundError | NameError | NonMappingDocument

definition path_exists :: "'v directory option \<Rightarrow> string \<Rightarrow> bool" where
  "path_exists dir file_name =
     (case dir of None \<Rightarrow> False | Some d \<Rightarrow> file_name \<in> set (keys d))"

definition has_host_file :: "'v directory option \<Rightarrow> string \<Rightarrow> bool" where
  "has_host_file dir host =
     (path_exists dir (host @ ''.yaml'') \<or> path_exists dir (host @ ''.yml''))"

section \<open>analyze\_inventory.py: parse\_hosts\_ini\<close>

text \<open>
  The state of the loop over the lines: \<open>current_group\<close>, the dictionary \<open>hosts\<close>
  (host to its \<open>'groups'\<close> list) and the dictionary \<open>groups\<close> (group to its hosts).
\<close>

type_synonym parse_state = "string option \<times> (string, string list) dict \<times> (string, string list) dict"

definition host_name_of :: "string \<Rightarrow> string" where
  "host_name_of line = (if CHR '' '' \<in> set line then strip (first_token line) else line)"

definition parse_line :: "'v directory option \<Rightarrow> parse_state \<Rightarrow> string \<Rightarrow> parse_state" where
  "parse_line dir st raw =
     (case st of (current_group, hosts, groups) \<Rightarrow>
        let line = strip raw in
        if line = [] \<or> startswith line ''#'' then st
        else if startswith line ''['' \<and> endswith line '']'' then
          (let g = strip (butlast (tl line)) in (Some g, hosts, AList.update g [] groups))
        else (case current_group of
                None \<Rightarrow> st
              | Some g \<Rightarrow>
                  if g = [] then st
                  else let host_name = host_name_of line in
                    if has_host_file dir host_name
                    then (current_group, dict_append host_name g hosts,
                          dict_append g host_name groups)
                    else st))"

definition parse_hosts_ini ::
  "'v inventory \<Rightarrow> error + ((string, string list) dict \<times> (string, string list) dict)" where
  "parse_hosts_ini fs =
     (case hosts_file fs of
        None \<Rightarrow> Inl FileNotFoundError
      | Some lines \<Rightarrow>
          (case foldl (parse_line (host_vars_dir fs)) (None, [], []) lines of
             (current_group, hosts, groups) \<Rightarrow> Inr (hosts, groups)))"

section \<open>analyze\_inventory.py: the loader\<close>

text \<open>The lines the program prints.\<close>

datatype msg =
    ErrorLoading string
  | HostFileNotFound string
  | RemovingDuplicatedHost string
  | RemovingMissingHost string
  | RemovingDuplicatedVar string string
  | RemovingInconsistentVar string string
  | CompletedHosts

text \<open>
  \<open>load_yaml_file\<close> on a file that exists (\<open>open\<close> on a missing file is the caller's
  branch): \<open>yaml.safe_load(file) or {}\<close>, and \<open>{}\<close> with a printed line on \<open>YAMLError\<close>.
  The result is what it prints and what it returns.
\<close>

definition load_yaml_file :: "string \<Rightarrow> 'v parse \<Rightarrow> msg list \<times> 'v loaded" where
  "load_yaml_file file_path content =
     (case content of
        YAMLError \<Rightarrow> ([ErrorLoading file_path], Dict [])
      | Falsy \<Rightarrow> ([], Dict [])
      | MapDoc d \<Rightarrow> ([], Dict d)
      | OtherDoc v \<Rightarrow> ([], NonDict v))"

definition load_all_vars ::
  "'v directory option \<Rightarrow> error + (msg list \<times> (string, 'v loaded) dict)" where
  "load_all_vars dir =
     (case dir of
        None \<Rightarrow> Inl FileNotFoundError
      | Some d \<Rightarrow>
          Inr (foldl (\<lambda>(out, vars_data) (file_name, content).
                        if is_var_file file_name
                        then (case load_yaml_file file_name content of
                                (printed, doc) \<Rightarrow>
                                  (out @ printed, AList.update file_name doc vars_data))
                        else (out, vars_data))
                     ([], []) d))"

section \<open>analyze\_inventory.py: the cross-reference engine\<close>

type_synonym 'v vars = "(string, (string, 'v) dict) dict"

record 'v conflict =
  cf_group_file :: string
  cf_host_file :: string
  cf_group_value :: 'v
  cf_host_value :: 'v

definition check_duplicate_vars ::
  "'v vars \<Rightarrow> 'v vars \<Rightarrow> (string, (string \<times> string) list) dict" where
  "check_duplicate_vars group_vars host_vars =
     foldl (\<lambda>duplicates (group_file, group_data).
       foldl (\<lambda>duplicates (host_file, host_data).
         let host_name = splitext_stem host_file in
         foldl (\<lambda>duplicates var.
                  if var \<in> set (keys host_data)
                  then dict_append var (group_file, host_name) duplicates
                  else duplicates)
               duplicates (keys group_data))
         duplicates host_vars)
       [] group_vars"

definition check_inconsistent_values ::
  "'v vars \<Rightarrow> 'v vars \<Rightarrow> (string, 'v conflict list) dict" where
  "check_inconsistent_values group_vars host_vars =
     foldl (\<lambda>inconsistencies (group_file, group_data).
       foldl (\<lambda>inconsistencies (host_file, host_data).
         let host_name = splitext_stem host_file in
         foldl (\<lambda>inconsistencies (var, group_value).
                  (case map_of host_data var of
                     None \<Rightarrow> inconsistencies
                   | Some host_value \<Rightarrow>
                       if host_value \<noteq> group_value
                       then dict_append var
                              \<lparr>cf_group_file = group_file, cf_host_file = host_name,
                               cf_group_value = group_value, cf_host_value = host_value\<rparr>
                              inconsistencies
                       else inconsistencies))
               inconsistencies group_data)
         inconsistencies host_vars)
       [] group_vars"

section \<open>analyze\_inventory.py: find\_duplicates\<close>

text \<open>
  The first pass of the loop over the groups evaluates \<open>Counter(hosts)\<close>; the module
  imports \<open>os\<close>, \<open>yaml\<close>, \<open>defaultdict\<close> and \<open>csv\<close> and binds no name \<open>Counter\<close>, so the
  call raises \<open>NameError\<close> before anything is counted.
\<close>

fun find_duplicates ::
  "(string, string list) dict \<Rightarrow> error + (string, string list) dict" where
  "find_duplicates [] = Inr []"
| "find_duplicates ((grp, hosts) # rest) = Inl NameError"

section \<open>analyze\_inventory.py: analyze\_inventory\<close>

record defect =
  Groups :: string
  Duplicated_Variables :: string
  Inconsistent_Variables :: string
  Duplicated_Host :: string
  Missing_File :: string
  Orphaned_Host_Var :: string

type_synonym report = "(string, defect) dict"

fun as_dicts :: "(string, 'v loaded) dict \<Rightarrow> error + 'v vars" where
  "as_dicts [] = Inr []"
| "as_dicts ((file_name, Dict d) # rest) =
     (case as_dicts rest of Inl e \<Rightarrow> Inl e | Inr ds \<Rightarrow> Inr ((file_name, d) # ds))"
| "as_dicts ((file_name, NonDict v) # rest) = Inl NonMappingDocument"

definition duplicated_vars_of ::
  "(string, (string \<times> string) list) dict \<Rightarrow> string \<Rightarrow> string list" where
  "duplicated_vars_of duplicate_vars host =
     concat (map (\<lambda>(var, files).
       concat (map (\<lambda>(group_file, host_file).
         if host_file = host
         then [var @ '' (in '' @ group_file @ '' and '' @ host_file @ '')'']
         else []) files)) duplicate_vars)"

definition inconsistent_vars_of ::
  "('v \<Rightarrow> string) \<Rightarrow> (string, 'v conflict list) dict \<Rightarrow> string \<Rightarrow> string list" where
  "inconsistent_vars_of fmt inconsistent_values host =
     concat (map (\<lambda>(var, conflicts).
       concat (map (\<lambda>conflict.
         if cf_host_file conflict = host
         then [var @ '' ('' @ cf_group_file conflict @ '' value = ''
                 @ fmt (cf_group_value conflict) @ '', '' @ host @ '' value = ''
                 @ fmt (cf_host_value conflict) @ '')'']
         else []) conflicts)) inconsistent_values)"

definition host_record ::
  "('v \<Rightarrow> string) \<Rightarrow> (string, (string \<times> string) list) dict \<Rightarrow>
   (string, 'v conflict list) dict \<Rightarrow> (string, string list) dict \<Rightarrow> string list \<Rightarrow>
   string \<Rightarrow> string list \<Rightarrow> defect" where
  "host_record fmt duplicate_vars inconsistent_values duplicated_hosts missing_files
     host related_groups =
     (let duplicated_vars = duplicated_vars_of duplicate_vars host;
          inconsistent_vars = inconsistent_vars_of fmt inconsistent_values host
      in \<lparr>Groups = join '', '' related_groups,
          Duplicated_Variables =
            (if duplicated_vars \<noteq> [] then join ''; '' duplicated_vars
             else ''No duplicated variables''),
          Inconsistent_Variables =
            (if inconsistent_vars \<noteq> [] then join ''; '' inconsistent_vars
             else ''No inconsistent variables''),
          Duplicated_Host =
            (case map_of duplicated_hosts host of
               Some groups \<Rightarrow> join '', '' groups
             | None \<Rightarrow> ''No duplication in groups''),
          Missing_File = (if host \<in> set missing_files then ''Yes'' else ''No''),
          Orphaned_Host_Var = ''No''\<rparr>)"

definition orphan_record :: defect where
  "orphan_record =
     \<lparr>Groups = ''No group assigned'',
      Duplicated_Variables = ''N/A'',
      Inconsistent_Variables = ''N/A'',
      Duplicated_Host = ''No duplication in groups'',
      Missing_File = ''No'',
      Orphaned_Host_Var = ''Yes''\<rparr>"

text \<open>
  The two loops of \<open>analyze_inventory\<close> that fill \<open>missing_files\<close> and
  \<open>orphaned_files\<close>. \<open>listing\<close> is \<open>os.listdir(host_vars_dir)\<close>.
\<close>

definition missing_files_of ::
  "'v directory option \<Rightarrow> (string, string list) dict \<Rightarrow> string list" where
  "missing_files_of dir hosts = filter (\<lambda>host. \<not> has_host_file dir host) (keys hosts)"

definition orphaned_files_of :: "string list \<Rightarrow> (string, string list) dict \<Rightarrow> string list" where
  "orphaned_files_of listing hosts =
     filter (\<lambda>host_name. host_name \<notin> set (keys hosts))
       (map splitext_stem (filter is_var_file listing))"

text \<open>The body of \<open>analyze_inventory\<close> after the two directories are loaded.\<close>

definition build_report ::
  "('v \<Rightarrow> string) \<Rightarrow> 'v directory option \<Rightarrow> string list \<Rightarrow>
   (string, string list) dict \<Rightarrow> 'v vars \<Rightarrow> 'v vars \<Rightarrow> report" where
  "build_report fmt dir listing hosts group_vars host_vars =
     (let duplicate_vars = check_duplicate_vars group_vars host_vars;
          inconsistent_values = check_inconsistent_values group_vars host_vars;
          duplicated_hosts = filter (\<lambda>(host, groups). length groups > 1) hosts;
          missing_files = missing_files_of dir hosts;
          orphaned_files = orphaned_files_of listing hosts;
          analysis_results =
            foldl (\<lambda>results (host, related_groups).
                     AList.update host
                       (host_record fmt duplicate_vars inconsistent_values duplicated_hosts
                          missing_files host related_groups) results)
                  [] hosts
      in foldl (\<lambda>results orphaned_host. AList.update orphaned_host orphan_record results)
           analysis_results orphaned_files)"

text \<open>
  \<open>analyze_inventory\<close> with \<open>save_csv=False\<close>. \<open>fmt\<close> is Python's formatting of a value
  in an f-string. A loaded document that is no dictionary ends the model's run with
  \<open>NonMappingDocument\<close>: what Python does with it depends on the value's type.
\<close>

definition analyze_inventory :: "('v \<Rightarrow> string) \<Rightarrow> 'v inventory \<Rightarrow> error + report" where
  "analyze_inventory fmt fs =
     (case parse_hosts_ini fs of
        Inl e \<Rightarrow> Inl e
      | Inr (hosts, groups) \<Rightarrow>
     (case load_all_vars (group_vars_dir fs) of
        Inl e \<Rightarrow> Inl e
      | Inr (out1, group_vars_loaded) \<Rightarrow>
     (case load_all_vars (host_vars_dir fs) of
        Inl e \<Rightarrow> Inl e
      | Inr (out2, host_vars_loaded) \<Rightarrow>
     (case as_dicts group_vars_loaded of
        Inl e \<Rightarrow> Inl e
      | Inr group_vars_data \<Rightarrow>
     (case as_dicts host_vars_loaded of
        Inl e \<Rightarrow> Inl e
      | Inr host_vars_data \<Rightarrow>
          Inr (build_report fmt (host_vars_dir fs)
                 (case host_vars_dir fs of None \<Rightarrow> [] | Some d \<Rightarrow> keys d)
                 hosts group_vars_data host_vars_data))))))"

section \<open>clean\_inventory.py\<close>

text \<open>
  One pass of the loop of \<open>clean_hosts\<close>: what it prints and what it writes for a line.
\<close>

definition clean_line :: "report \<Rightarrow> string \<Rightarrow> msg list \<times> string list" where
  "clean_line analysis_results line =
     (let stripped_line = strip line in
      if stripped_line = [] \<or> startswith stripped_line ''#'' \<or> startswith stripped_line ''[''
      then ([], [line])
      else let host_name = first_token stripped_line in
        (case map_of analysis_results host_name of
           None \<Rightarrow> ([], [line])
         | Some analysis \<Rightarrow>
             if Duplicated_Host analysis \<noteq> ''No duplication in groups''
             then ([RemovingDuplicatedHost host_name], [])
             else if Missing_File analysis = ''Yes''
             then ([RemovingMissingHost host_name], [])
             else ([], [line])))"

definition clean_hosts ::
  "'v inventory \<Rightarrow> report \<Rightarrow> error + (msg list \<times> 'v inventory)" where
  "clean_hosts fs analysis_results =
     (case hosts_file fs of
        None \<Rightarrow> Inl FileNotFoundError
      | Some lines \<Rightarrow>
          (let passes = map (clean_line analysis_results) lines
           in Inr (concat (map fst passes) @ [CompletedHosts],
                   fs\<lparr>hosts_file := Some (concat (map snd passes))\<rparr>)))"

text \<open>
  \<open>[var.split(" (")[0].lower() for var in field.split("; ")]\<close>
\<close>

definition flagged_names :: "string \<Rightarrow> string list" where
  "flagged_names field =
     map (\<lambda>var. lower (case split2 (CHR '' '') (CHR ''('') [] var of
                          [] \<Rightarrow> [] | piece # rest \<Rightarrow> piece))
         (split2 (CHR '';'') (CHR '' '') [] field)"

text \<open>\<open>{key.lower(): key for key in host_data}\<close>\<close>

definition case_insensitive :: "(string, 'v) dict \<Rightarrow> (string, string) dict" where
  "case_insensitive host_data =
     foldl (\<lambda>ci key. AList.update (lower key) key ci) [] (keys host_data)"

text \<open>
  One pass of a removal loop: \<open>original_var = host_data_ci.get(var)\<close>, and the deletion
  when \<open>original_var\<close> is truthy and a key of \<open>host_data\<close>.
\<close>

definition remove_var ::
  "(string \<Rightarrow> msg) \<Rightarrow> (string, string) dict \<Rightarrow> msg list \<times> (string, 'v) dict \<Rightarrow> string \<Rightarrow>
   msg list \<times> (string, 'v) dict" where
  "remove_var removing host_data_ci st var =
     (case st of (out, host_data) \<Rightarrow>
        (case map_of host_data_ci var of
           None \<Rightarrow> st
         | Some original_var \<Rightarrow>
             if original_var \<noteq> [] \<and> original_var \<in> set (keys host_data)
             then (out @ [removing original_var], AList.delete original_var host_data)
             else st))"

text \<open>
  \<open>save_yaml_file\<close>: \<open>yaml.safe_dump\<close> writes the keys of a mapping in sorted order, so
  that is the mapping a later load of the file returns.
\<close>

definition save_yaml_file :: "(string, 'v) dict \<Rightarrow> 'v parse" where
  "save_yaml_file data = MapDoc (sort_key fst data)"

text \<open>
  The body of the loop of \<open>clean_host_vars\<close> for one entry of the report, on what was
  printed so far and the directory \<open>host_vars\<close>. A missing file (or directory) is
  the \<open>FileNotFoundError\<close> branch.
\<close>

definition clean_host_file ::
  "string \<times> defect \<Rightarrow> msg list \<times> 'v directory option \<Rightarrow>
   error + (msg list \<times> 'v directory option)" where
  "clean_host_file entry st =
     (case entry of (host, analysis) \<Rightarrow>
      case st of (out, dir) \<Rightarrow>
        let host_file_path = host @ ''.yml'' in
        (case (case dir of None \<Rightarrow> None | Some d \<Rightarrow> map_of d host_file_path) of
           None \<Rightarrow> Inr (out @ [HostFileNotFound host_file_path], dir)
         | Some content \<Rightarrow>
             (case load_yaml_file host_file_path content of
                (printed, NonDict v) \<Rightarrow> Inl NonMappingDocument
              | (printed, Dict host_data) \<Rightarrow>
                  let host_data_ci = case_insensitive host_data;
                      st1 = (if Duplicated_Variables analysis \<noteq> ''No duplicated variables''
                             then foldl (remove_var (\<lambda>v. RemovingDuplicatedVar v host_file_path)
                                           host_data_ci)
                                    (out @ printed, host_data)
                                    (flagged_names (Duplicated_Variables analysis))
                             else (out @ printed, host_data));
                      st2 = (if Inconsistent_Variables analysis \<noteq> ''No inconsistent variables''
                             then foldl (remove_var (\<lambda>v. RemovingInconsistentVar v host_file_path)
                                           host_data_ci)
                                    st1 (flagged_names (Inconsistent_Variables analysis))
                             else st1)
                  in Inr (fst st2,
                          map_option (AList.update host_file_path (save_yaml_file (snd st2)))
                            dir))))"

fun clean_host_vars_loop ::
  "report \<Rightarrow> msg list \<times> 'v directory option \<Rightarrow> error + (msg list \<times> 'v directory option)" where
  "clean_host_vars_loop [] st = Inr st"
| "clean_host_vars_loop (entry # rest) st =
     (case clean_host_file entry st of
        Inl e \<Rightarrow> Inl e
      | Inr st' \<Rightarrow> clean_host_vars_loop rest st')"

definition clean_host_vars ::
  "'v inventory \<Rightarrow> report \<Rightarrow> error + (msg list \<times> 'v inventory)" where
  "clean_host_vars fs analysis_results =
     (case clean_host_vars_loop analysis_results ([], host_vars_dir fs) of
        Inl e \<Rightarrow> Inl e
      | Inr (out, dir) \<Rightarrow> Inr (out, fs\<lparr>host_vars_dir := dir\<rparr>))"

definition clean_inventory ::
  "'v inventory \<Rightarrow> report \<Rightarrow> error + (msg list \<times> 'v inventory)" where
  "clean_inventory fs analysis_results =
     (case clean_hosts fs analysis_results of
        Inl e \<Rightarrow> Inl e
      | Inr (out1, fs1) \<Rightarrow>
          (case clean_host_vars fs1 analysis_results of
             Inl e \<Rightarrow> Inl e
           | Inr (out2, fs2) \<Rightarrow> Inr (out1 @ out2, fs2)))"

section \<open>Notions used in the statements\<close>

text \<open>
  What holds of the two dictionaries of \<open>parse_hosts_ini\<close> after every line: no key twice,
  and every host that was stored has a file \<open>.yaml\<close> or \<open>.yml\<close> in \<open>host_vars\<close>.
\<close>

definition parse_inv ::
  "'v directory option \<Rightarrow> (string, string list) dict \<Rightarrow> (string, string list) dict \<Rightarrow> bool" where
  "parse_inv dir hosts groups =
     (distinct (keys hosts) \<and> distinct (keys groups) \<and>
      (\<forall>h \<in> set (keys hosts). has_host_file dir h) \<and>
      (\<forall>(g, hs) \<in> set groups. \<forall>h \<in> set hs. has_host_file dir h))"

text \<open>
  The two tests of \<open>clean_hosts\<close> on a line, named for the statements: the line is written
  through untouched (blank, comment, or opening with a bracket), and the report flags a host
  (its \<open>Duplicated Host\<close> is not the marker, or its \<open>Missing File in host_vars\<close> is
  \<open>Yes\<close>).
\<close>

definition passes_through :: "string \<Rightarrow> bool" where
  "passes_through line =
     (strip line = [] \<or> startswith (strip line) ''#'' \<or> startswith (strip line) ''['')"

definition flagged_host :: "report \<Rightarrow> string \<Rightarrow> bool" where
  "flagged_host analysis_results host_name =
     (case map_of analysis_results host_name of
        None \<Rightarrow> False
      | Some analysis \<Rightarrow>
          Duplicated_Host analysis \<noteq> ''No duplication in groups'' \<or>
          Missing_File analysis = ''Yes'')"

definition keeps_line :: "report \<Rightarrow> string \<Rightarrow> bool" where
  "keeps_line analysis_results line =
     (passes_through line \<or> \<not> flagged_host analysis_results (first_token (strip line)))"

text \<open>
  The occurrences that an all-pairs comparison records, in the order of the two
  collections: for every group file, every host file and every key of the group document
  that is a key of the host document too (and, for the inconsistencies, has another value
  there), the key with what is recorded for it.
\<close>

definition duplicate_occurrences ::
  "'v vars \<Rightarrow> 'v vars \<Rightarrow> (string \<times> (string \<times> string)) list" where
  "duplicate_occurrences gv hv =
     concat (map (\<lambda>(group_file, group_data).
       concat (map (\<lambda>(host_file, host_data).
         map (\<lambda>var. (var, (group_file, splitext_stem host_file)))
           (filter (\<lambda>var. var \<in> set (keys host_data)) (keys group_data))) hv)) gv)"

definition inconsistency_occurrences ::
  "'v vars \<Rightarrow> 'v vars \<Rightarrow> (string \<times> 'v conflict) list" where
  "inconsistency_occurrences gv hv =
     concat (map (\<lambda>(group_file, group_data).
       concat (map (\<lambda>(host_file, host_data).
         concat (map (\<lambda>(var, group_value).
           (case map_of host_data var of
              None \<Rightarrow> []
            | Some host_value \<Rightarrow>
                if host_value \<noteq> group_value
                then [(var, \<lparr>cf_group_file = group_file, cf_host_file = splitext_stem host_file,
                             cf_group_value = group_value, cf_host_value = host_value\<rparr>)]
                else [])) group_data)) hv)) gv)"

text \<open>\<open>d[k].append(x)\<close> for a list of pairs \<open>(k, x)\<close>, in their order.\<close>

definition record_all :: "('k \<times> 'a) list \<Rightarrow> ('k, 'a list) dict \<Rightarrow> ('k, 'a list) dict" where
  "record_all occurrences d = foldl (\<lambda>d (k, x). dict_append k x d) d occurrences"

text \<open>
  The names that \<open>clean_host_vars\<close> looks up for a record: those of
  \<open>Duplicated Variables\<close> and then those of \<open>Inconsistent Variables\<close>, a field that holds
  its marker giving none.
\<close>

definition removal_names :: "defect \<Rightarrow> string list" where
  "removal_names analysis =
     (if Duplicated_Variables analysis \<noteq> ''No duplicated variables''
      then flagged_names (Duplicated_Variables analysis) else []) @
     (if Inconsistent_Variables analysis \<noteq> ''No inconsistent variables''
      then flagged_names (Inconsistent_Variables analysis) else [])"

text \<open>The document that the removal loops leave, without what they print.\<close>

definition remove_keys ::
  "(string, string) dict \<Rightarrow> string list \<Rightarrow> (string, 'v) dict \<Rightarrow> (string, 'v) dict" where
  "remove_keys host_data_ci names host_data =
     foldl (\<lambda>host_data var.
              (case map_of host_data_ci var of
                 None \<Rightarrow> host_data
               | Some original_var \<Rightarrow>
                   if original_var \<noteq> [] \<and> original_var \<in> set (keys host_data)
                   then AList.delete original_var host_data else host_data))
           host_data names"

text \<open>
  No two keys of any document of a directory differ in letter case only (and no key
  stands twice).
\<close>

definition case_distinct :: "'v directory \<Rightarrow> bool" where
  "case_distinct d =
     (\<forall>(file_name, content) \<in> set d.
        \<forall>data. content = MapDoc data \<longrightarrow> distinct (map lower (keys data)))"

section \<open>Inventories used as examples\<close>



text \<open>
  \<open>duplicate_inventory\<close> lists the host \<open>web\<close> twice under \<open>[web]\<close>;
  \<open>ghost_inventory\<close> holds a file \<open>host_vars/ghost.yml\<close> for a host that no group
  lists. \<open>duplicate_report\<close> and \<open>ghost_report\<close> are what the analysis returns for them.
\<close>

definition duplicate_inventory :: "string inventory" where
  "duplicate_inventory =
     \<lparr>hosts_file = Some [''[web]\<newline>'', ''web\<newline>'', ''web\<newline>''],
      group_vars_dir = Some [],
      host_vars_dir = Some [(''web.yml'', MapDoc [])]\<rparr>"

definition ghost_inventory :: "string inventory" where
  "ghost_inventory =
     \<lparr>hosts_file = Some [''# production\<newline>'', ''[web]\<newline>'', ''app1 ansible_host=10.0.0.1\<newline>''],
      group_vars_dir = Some [(''web.yml'', MapDoc [(''port'', ''80'')])],
      host_vars_dir = Some [(''app1.yml'', MapDoc [(''port'', ''8080'')]),
                            (''ghost.yml'', MapDoc [(''port'', ''80'')])]\<rparr>"

definition duplicate_report :: report where
  "duplicate_report =
     [(''web'', \<lparr>Groups = ''web, web'', Duplicated_Variables = ''No duplicated variables'',
                 Inconsistent_Variables = ''No inconsistent variables'',
                 Duplicated_Host = ''web, web'', Missing_File = ''No'',
                 Orphaned_Host_Var = ''No''\<rparr>)]"

definition ghost_report :: report where
  "ghost_report =
     [(''app1'', \<lparr>Groups = ''web'', Duplicated_Variables = ''port (in web.yml and app1)'',
                  Inconsistent_Variables = ''port (web.yml value = 80, app1 value = 8080)'',
                  Duplicated_Host = ''No duplication in groups'', Missing_File = ''No'',
                  Orphaned_Host_Var = ''No''\<rparr>),
      (''ghost'', orphan_record)]"




text \<open>
  Two collections as \<open>load_all_vars\<close> returns them: \<open>app1\<close> belongs to the group \<open>web\<close>
  only, \<open>db1\<close> to the group \<open>db\<close> only.
\<close>

definition cross_group_vars :: "string vars" where
  "cross_group_vars =
     [(''web.yml'', [(''port'', ''80''), (''env'', ''prod'')]),
      (''db.yml'', [(''port'', ''5432'')])]"

definition cross_host_vars :: "string vars" where
  "cross_host_vars =
     [(''app1.yml'', [(''port'', ''8080''), (''env'', ''prod'')]),
      (''db1.yaml'', [(''port'', ''5432'')])]"

text \<open>
  \<open>collision_inventory\<close>: the file of \<open>app1\<close> has the keys \<open>port\<close> and \<open>Port\<close>, and the
  group file has \<open>port\<close>. \<open>collision_report\<close> is the report of the analysis,
  \<open>collision_cleaned\<close> the inventory after one cleanup and \<open>collision_cleaned_twice\<close>
  after a second cleanup with the same report.
\<close>

definition collision_inventory :: "string inventory" where
  "collision_inventory =
     \<lparr>hosts_file = Some [''[web]\<newline>'', ''app1\<newline>''],
      group_vars_dir = Some [(''web.yml'', MapDoc [(''port'', ''80'')])],
      host_vars_dir = Some [(''app1.yml'', MapDoc [(''port'', ''8080''), (''Port'', ''1'')])]\<rparr>"

definition collision_report :: report where
  "collision_report =
     [(''app1'', \<lparr>Groups = ''web'', Duplicated_Variables = ''port (in web.yml and app1)'',
                  Inconsistent_Variables = ''port (web.yml value = 80, app1 value = 8080)'',
                  Duplicated_Host = ''No duplication in groups'', Missing_File = ''No'',
                  Orphaned_Host_Var = ''No''\<rparr>)]"

definition collision_cleaned :: "string inventory" where
  "collision_cleaned =
     \<lparr>hosts_file = Some [''[web]\<newline>'', ''app1\<newline>''],
      group_vars_dir = Some [(''web.yml'', MapDoc [(''port'', ''80'')])],
      host_vars_dir = Some [(''app1.yml'', MapDoc [(''port'', ''8080'')])]\<rparr>"

definition collision_cleaned_twice :: "string inventory" where
  "collision_cleaned_twice =
     \<lparr>hosts_file = Some [''[web]\<newline>'', ''app1\<newline>''],
      group_vars_dir = Some [(''web.yml'', MapDoc [(''port'', ''80'')])],
      host_vars_dir = Some [(''app1.yml'', MapDoc [])]\<rparr>"

section \<open>Properties of the dictionaries\<close>

lemma map_of_dict_append:
  "map_of (dict_append k x d) = (map_of d)(k \<mapsto> dict_get_list d k @ [x])"
  by (simp add: dict_append_def update_conv')

lemma keys_dict_append: "set (keys (dict_append k x d)) = insert k (set (keys d))"
  by (simp add: dict_append_def keys_def dom_update)

lemma distinct_dict_append:
  "distinct (keys d) \<Longrightarrow> distinct (keys (dict_append k x d))"
  by (simp add: dict_append_def keys_def distinct_update)

lemma set_dict_append:
  "distinct (keys d) \<Longrightarrow> (g, hs) \<in> set (dict_append k x d) \<Longrightarrow>
     (g, hs) \<in> set d \<or> (g = k \<and> hs = dict_get_list d k @ [x])"
proof -
  assume d: "distinct (keys d)" and m: "(g, hs) \<in> set (dict_append k x d)"
  from d have "distinct (keys (dict_append k x d))" by (rule distinct_dict_append)
  with m have "map_of (dict_append k x d) g = Some hs" by (simp add: keys_def)
  then have "((map_of d)(k \<mapsto> dict_get_list d k @ [x])) g = Some hs"
    by (simp add: map_of_dict_append)
  then show ?thesis by (auto split: if_splits dest: map_of_SomeD)
qed

lemma dict_get_list_mem:
  "h \<in> set (dict_get_list d k) \<Longrightarrow> \<exists>hs. (k, hs) \<in> set d \<and> h \<in> set hs"
  by (cases "map_of d k") (auto simp: dict_get_list_def dest: map_of_SomeD)

section \<open>Properties of parse\_hosts\_ini\<close>

lemma set_update_nil:
  "distinct (keys d) \<Longrightarrow> (g, hs) \<in> set (AList.update k [] d) \<Longrightarrow> (g, hs) \<in> set d \<or> hs = []"
proof -
  assume d: "distinct (keys d)" and m: "(g, hs) \<in> set (AList.update k [] d)"
  from d have "distinct (map fst (AList.update k [] d))" by (simp add: keys_def distinct_update)
  with m have "map_of (AList.update k [] d) g = Some hs" by simp
  then show ?thesis by (auto simp: update_conv' split: if_splits dest: map_of_SomeD)
qed

lemma parse_inv_header:
  assumes "parse_inv dir hosts groups"
  shows "parse_inv dir hosts (AList.update g [] groups)"
proof -
  from assms have dg: "distinct (keys groups)" by (simp add: parse_inv_def)
  have "\<forall>(g', hs) \<in> set (AList.update g [] groups). \<forall>h \<in> set hs. has_host_file dir h"
  proof (clarify)
    fix g' hs h assume m: "(g', hs) \<in> set (AList.update g [] groups)" and h: "h \<in> set hs"
    from set_update_nil[OF dg m] h have "(g', hs) \<in> set groups" by auto
    with assms h show "has_host_file dir h" by (auto simp: parse_inv_def)
  qed
  with assms show ?thesis by (simp add: parse_inv_def keys_def distinct_update)
qed

lemma parse_inv_host:
  assumes "parse_inv dir hosts groups" and hf: "has_host_file dir h"
  shows "parse_inv dir (dict_append h g hosts) (dict_append g h groups)"
proof -
  from assms have dg: "distinct (keys groups)"
    and gg: "\<forall>(g, hs) \<in> set groups. \<forall>h \<in> set hs. has_host_file dir h"
    by (simp_all add: parse_inv_def)
  have "\<forall>(g', hs) \<in> set (dict_append g h groups). \<forall>h' \<in> set hs. has_host_file dir h'"
  proof (clarify)
    fix g' hs h' assume m: "(g', hs) \<in> set (dict_append g h groups)" and h': "h' \<in> set hs"
    from set_dict_append[OF dg m] show "has_host_file dir h'"
    proof
      assume "(g', hs) \<in> set groups" with gg h' show ?thesis by auto
    next
      assume "g' = g \<and> hs = dict_get_list groups g @ [h]"
      with h' have "h' = h \<or> h' \<in> set (dict_get_list groups g)" by auto
      then show ?thesis
      proof
        assume "h' = h" with hf show ?thesis by simp
      next
        assume "h' \<in> set (dict_get_list groups g)"
        from dict_get_list_mem[OF this] gg show ?thesis by auto
      qed
    qed
  qed
  with assms show ?thesis
    by (simp add: parse_inv_def distinct_dict_append keys_dict_append)
qed

lemma parse_line_inv:
  assumes "parse_inv dir hosts groups"
    and "parse_line dir (cg, hosts, groups) raw = (cg', hosts', groups')"
  shows "parse_inv dir hosts' groups'"
proof (cases "strip raw = [] \<or> startswith (strip raw) ''#''")
  case True
  with assms show ?thesis by (simp add: parse_line_def)
next
  case nc: False
  show ?thesis
  proof (cases "startswith (strip raw) ''['' \<and> endswith (strip raw) '']''")
    case True
    with nc assms(2) have "hosts' = hosts"
      and "groups' = AList.update (strip (butlast (tl (strip raw)))) [] groups"
      by (simp_all add: parse_line_def Let_def)
    with parse_inv_header[OF assms(1)] show ?thesis by simp
  next
    case nh: False
    show ?thesis
    proof (cases "cg \<noteq> None \<and> cg \<noteq> Some [] \<and> has_host_file dir (host_name_of (strip raw))")
      case True
      then obtain g where g: "cg = Some g" "g \<noteq> []" by auto
      with True nc nh assms(2) have "hosts' = dict_append (host_name_of (strip raw)) g hosts"
        and "groups' = dict_append g (host_name_of (strip raw)) groups"
        by (auto simp: parse_line_def Let_def split: if_splits)
      with parse_inv_host[OF assms(1)] True show ?thesis by simp
    next
      case False
      with nc nh assms(2) have "hosts' = hosts \<and> groups' = groups"
        by (cases cg) (auto simp: parse_line_def Let_def split: if_splits)
      with assms(1) show ?thesis by simp
    qed
  qed
qed

lemma parse_lines_inv:
  "parse_inv dir hosts groups \<Longrightarrow>
   foldl (parse_line dir) (cg, hosts, groups) lines = (cg', hosts', groups') \<Longrightarrow>
   parse_inv dir hosts' groups'"
proof (induction lines arbitrary: cg hosts groups)
  case Nil
  then show ?case by simp
next
  case (Cons l ls)
  obtain c1 h1 g1 where s: "parse_line dir (cg, hosts, groups) l = (c1, h1, g1)"
    by (cases "parse_line dir (cg, hosts, groups) l")
  from parse_line_inv[OF Cons.prems(1) s] have "parse_inv dir h1 g1" .
  moreover from Cons.prems(2) s have "foldl (parse_line dir) (c1, h1, g1) ls = (cg', hosts', groups')"
    by simp
  ultimately show ?case by (rule Cons.IH)
qed

lemma parse_hosts_ini_inv:
  assumes "parse_hosts_ini fs = Inr (hosts, groups)"
  shows "parse_inv (host_vars_dir fs) hosts groups"
proof -
  from assms obtain lines cg where
    "foldl (parse_line (host_vars_dir fs)) (None, [], []) lines = (cg, hosts, groups)"
    by (auto simp: parse_hosts_ini_def split: option.splits prod.splits)
  moreover have "parse_inv (host_vars_dir fs) [] []" by (simp add: parse_inv_def keys_def)
  ultimately show ?thesis using parse_lines_inv by blast
qed

section \<open>Properties of the report\<close>

lemma update_fresh: "k \<notin> fst ` set d \<Longrightarrow> AList.update k v d = d @ [(k, v)]"
  by (induction d) auto

lemma foldl_update_fresh:
  "distinct (map fst xs) \<Longrightarrow> fst ` set init \<inter> fst ` set xs = {} \<Longrightarrow>
   foldl (\<lambda>results (k, v). AList.update k (f k v) results) init xs
     = init @ map (\<lambda>(k, v). (k, f k v)) xs"
proof (induction xs arbitrary: init)
  case Nil
  then show ?case by simp
next
  case (Cons x xs)
  obtain k v where x: "x = (k, v)" by (cases x)
  from Cons.prems x have fresh: "k \<notin> fst ` set init" by auto
  have "fst ` set (init @ [(k, f k v)]) \<inter> fst ` set xs = {}"
    using Cons.prems x by auto
  moreover from Cons.prems have "distinct (map fst xs)" by simp
  ultimately have "foldl (\<lambda>results (k, v). AList.update k (f k v) results) (init @ [(k, f k v)]) xs
     = (init @ [(k, f k v)]) @ map (\<lambda>(k, v). (k, f k v)) xs"
    using Cons.IH[of "init @ [(k, f k v)]"] by auto
  then show ?case using x fresh by (simp add: update_fresh)
qed

lemma map_of_map_key:
  "map_of (map (\<lambda>(host, gs). (host, f host gs)) d) h = map_option (f h) (map_of d h)"
  by (induction d) auto

lemma map_of_foldl_update_const:
  "map_of (foldl (\<lambda>results k. AList.update k c results) init ks) k
     = (if k \<in> set ks then Some c else map_of init k)"
  by (induction ks arbitrary: init) (auto simp: update_conv')

lemma distinct_foldl_update_const:
  "distinct (map fst init) \<Longrightarrow>
   distinct (map fst (foldl (\<lambda>results k. AList.update k c results) init ks))"
  by (induction ks arbitrary: init) (auto simp: distinct_update)

lemma map_of_filter_keys:
  assumes "distinct (keys d)" and "map_of d host = Some gs"
  shows "map_of (filter Q d) host = (if Q (host, gs) then Some gs else None)"
  using assms
proof (induction d)
  case Nil
  then show ?case by simp
next
  case (Cons entry d)
  obtain h' gs' where entry: "entry = (h', gs')" by (cases entry)
  show ?case
  proof (cases "h' = host")
    case True
    with Cons.prems entry have "host \<notin> fst ` set d" and "gs' = gs"
      by (auto simp: keys_def)
    then have "map_of (filter Q d) host = None"
      by (force simp: map_of_eq_None_iff)
    with True entry \<open>gs' = gs\<close> show ?thesis by simp
  next
    case False
    with Cons entry show ?thesis by (simp add: keys_def)
  qed
qed

lemma filter_key_single:
  "distinct (map fst xs) \<Longrightarrow> map_of xs k = Some v \<Longrightarrow> filter (\<lambda>(k', r). k' = k) xs = [(k, v)]"
proof (induction xs)
  case Nil
  then show ?case by simp
next
  case (Cons x xs)
  obtain k' v' where x: "x = (k', v')" by (cases x)
  show ?case
  proof (cases "k' = k")
    case True
    with Cons.prems x have "k \<notin> fst ` set xs" by auto
    then have "filter (\<lambda>(k', r). k' = k) xs = []" by (force simp: filter_empty_conv)
    with True x Cons.prems show ?thesis by simp
  next
    case False
    with Cons x show ?thesis by simp
  qed
qed

lemma comma_in_join:
  "2 \<le> length xs \<Longrightarrow> CHR '','' \<in> set (join '', '' xs)"
proof -
  assume "2 \<le> length xs"
  then obtain x y ys where "xs = x # y # ys"
    by (cases xs; cases "tl xs") auto
  then show ?thesis by simp
qed




lemma build_report_distinct:
  assumes "distinct (keys hosts)"
  shows "distinct (keys (build_report fmt dir listing hosts gv hv))"
proof -
  have "distinct (map fst (map (\<lambda>(k, v). (k, f k v)) hosts))" for f :: "string \<Rightarrow> string list \<Rightarrow> defect"
    using assms by (simp add: keys_def comp_def case_prod_unfold)
  then show ?thesis using assms
    by (simp add: build_report_def Let_def keys_def foldl_update_fresh distinct_foldl_update_const)
qed

lemma build_report_map_of:
  assumes "distinct (keys hosts)"
  shows "map_of (build_report fmt dir listing hosts gv hv) k =
     (if k \<in> set (orphaned_files_of listing hosts) then Some orphan_record
      else map_option
             (host_record fmt (check_duplicate_vars gv hv) (check_inconsistent_values gv hv)
                (filter (\<lambda>(host, groups). length groups > 1) hosts)
                (missing_files_of dir hosts) k)
             (map_of hosts k))"
  using assms
  by (simp add: build_report_def Let_def keys_def foldl_update_fresh
        map_of_foldl_update_const map_of_map_key)

lemma load_all_vars_Inr: "load_all_vars dir = Inr x \<Longrightarrow> \<exists>d. dir = Some d"
  by (cases dir) (simp_all add: load_all_vars_def)

lemma analyze_inventory_Inr:
  assumes "analyze_inventory fmt fs = Inr report"
  shows "\<exists>hosts groups d gv hv.
           parse_hosts_ini fs = Inr (hosts, groups) \<and> host_vars_dir fs = Some d \<and>
           report = build_report fmt (Some d) (keys d) hosts gv hv"
proof -
  from assms obtain hosts groups where p: "parse_hosts_ini fs = Inr (hosts, groups)"
    by (auto simp: analyze_inventory_def split: sum.splits)
  from assms p obtain x where "load_all_vars (host_vars_dir fs) = Inr x"
    by (auto simp: analyze_inventory_def split: sum.splits prod.splits)
  then obtain d where d: "host_vars_dir fs = Some d" using load_all_vars_Inr by blast
  from assms p d show ?thesis
    by (auto simp: analyze_inventory_def split: sum.splits prod.splits)
qed




section \<open>The parser's exclusion of hosts without a file\<close>




section \<open>The analysis of the example inventories\<close>

lemma analyze_duplicate_inventory:
  "analyze_inventory id duplicate_inventory = Inr duplicate_report"
  by code_simp

lemma parse_duplicate_inventory:
  "parse_hosts_ini duplicate_inventory =
     Inr ([(''web'', [''web'', ''web''])], [(''web'', [''web'', ''web''])])"
  by code_simp

lemma analyze_ghost_inventory: "analyze_inventory id ghost_inventory = Inr ghost_report"
  by code_simp

lemma parse_ghost_inventory:
  "parse_hosts_ini ghost_inventory = Inr ([(''app1'', [''web''])], [(''web'', [''app1''])])"
  by code_simp

section \<open>The record of a host of the model\<close>

lemma host_record_of_model:
  assumes a: "analyze_inventory fmt fs = Inr report"
    and p: "parse_hosts_ini fs = Inr (hosts, groups)"
    and h: "map_of hosts host = Some group_list"
  shows "\<exists>r. map_of report host = Some r \<and>
           Groups r = join '', '' group_list \<and>
           Duplicated_Host r = (if 1 < length group_list then join '', '' group_list
                                else ''No duplication in groups'') \<and>
           Orphaned_Host_Var r = ''No''"
proof -
  from parse_hosts_ini_inv[OF p] have dh: "distinct (keys hosts)" by (simp add: parse_inv_def)
  from analyze_inventory_Inr[OF a] p obtain d gv hv where
    r: "report = build_report fmt (Some d) (keys d) hosts gv hv" by auto
  from h have "host \<in> set (keys hosts)" by (auto simp: keys_def dest: map_of_SomeD intro: rev_image_eqI)
  then have no: "host \<notin> set (orphaned_files_of (keys d) hosts)"
    by (simp add: orphaned_files_of_def)
  have "map_of (filter (\<lambda>(host, groups). length groups > 1) hosts) host
        = (if 1 < length group_list then Some group_list else None)"
    using map_of_filter_keys[OF dh h, of "\<lambda>(host, groups). length groups > 1"] by simp
  with build_report_map_of[OF dh, of fmt "Some d" "keys d" gv hv host] no h r
  show ?thesis by (simp add: host_record_def Let_def)
qed

text \<open>
  C6. For a host of the parsed model with group list \<open>group_list\<close> (one entry for every
  accepted appearance in the membership file, also twice in the same group), the field
  \<open>Duplicated Host\<close> of its record differs from the marker \<open>No duplication in groups\<close>
  exactly when the list is longer than 1, and then it is the list joined with \<open>", "\<close>
  in its order.
\<close>

theorem duplicated_host_characterisation:
  assumes "analyze_inventory fmt fs = Inr report"
    and "parse_hosts_ini fs = Inr (hosts, groups)"
    and "map_of hosts host = Some group_list"
  shows "\<exists>r. map_of report host = Some r \<and>
           (Duplicated_Host r \<noteq> ''No duplication in groups'' \<longleftrightarrow> 1 < length group_list) \<and>
           (1 < length group_list \<longrightarrow> Duplicated_Host r = join '', '' group_list)"
proof -
  from host_record_of_model[OF assms] obtain r where
    r: "map_of report host = Some r"
       "Duplicated_Host r = (if 1 < length group_list then join '', '' group_list
                             else ''No duplication in groups'')" by blast
  have "join '', '' group_list \<noteq> ''No duplication in groups''" if "1 < length group_list"
  proof
    assume e: "join '', '' group_list = ''No duplication in groups''"
    from that have "CHR '','' \<in> set (join '', '' group_list)" by (simp add: comma_in_join)
    with e show False by simp
  qed
  with r show ?thesis by auto
qed

text \<open>The theorem at \<open>duplicate_inventory\<close> and the host \<open>web\<close>.\<close>

theorem duplicated_host_characterisation_witness:
  "analyze_inventory id duplicate_inventory = Inr duplicate_report \<and>
   parse_hosts_ini duplicate_inventory =
     Inr ([(''web'', [''web'', ''web''])], [(''web'', [''web'', ''web''])]) \<and>
   map_of [(''web'', [''web'', ''web''])] ''web'' = Some [''web'', ''web''] \<and>
   (\<exists>r. map_of duplicate_report ''web'' = Some r \<and>
        (Duplicated_Host r \<noteq> ''No duplication in groups'' \<longleftrightarrow> 1 < length [''web'', ''web'']) \<and>
        (1 < length [''web'', ''web''] \<longrightarrow> Duplicated_Host r = join '', '' [''web'', ''web'']))"
proof -
  have h: "map_of [(''web'', [''web'', ''web''])] ''web'' = Some [''web'', ''web'']" by simp
  from duplicated_host_characterisation
         [OF analyze_duplicate_inventory parse_duplicate_inventory h]
    analyze_duplicate_inventory parse_duplicate_inventory h
  show ?thesis by blast
qed

section \<open>Orphaned variable files\<close>

text \<open>
  C7. For a variable file of \<open>host_vars\<close> whose stem is no host of the parsed model, the
  report has exactly one entry under the stem; its \<open>Groups\<close> is \<open>No group assigned\<close>,
  \<open>Orphaned Host Var\<close> is \<open>Yes\<close> and \<open>Missing File in host_vars\<close> is \<open>No\<close>. No record
  of the report has both \<open>Orphaned Host Var\<close> and \<open>Missing File in host_vars\<close> equal
  to \<open>Yes\<close>.
\<close>

theorem orphan_record_invariant:
  assumes "analyze_inventory fmt fs = Inr report"
    and "parse_hosts_ini fs = Inr (hosts, groups)"
    and "host_vars_dir fs = Some d"
    and "file_name \<in> set (keys d)" and "is_var_file file_name"
    and "splitext_stem file_name \<notin> set (keys hosts)"
  shows "(\<exists>r. filter (\<lambda>(host, r). host = splitext_stem file_name) report
                = [(splitext_stem file_name, r)] \<and>
              Groups r = ''No group assigned'' \<and> Orphaned_Host_Var r = ''Yes'' \<and>
              Missing_File r = ''No'') \<and>
         (\<forall>(host, r) \<in> set report.
            \<not> (Orphaned_Host_Var r = ''Yes'' \<and> Missing_File r = ''Yes''))"
proof -
  from parse_hosts_ini_inv[OF assms(2)] have dh: "distinct (keys hosts)"
    by (simp add: parse_inv_def)
  from analyze_inventory_Inr[OF assms(1)] assms(2,3) obtain gv hv where
    r: "report = build_report fmt (Some d) (keys d) hosts gv hv" by auto
  from build_report_distinct[OF dh] r have dr: "distinct (map fst report)"
    by (simp add: keys_def)
  from assms(4-6) have "splitext_stem file_name \<in> set (orphaned_files_of (keys d) hosts)"
    by (auto simp: orphaned_files_of_def)
  with build_report_map_of[OF dh, of fmt "Some d" "keys d" gv hv "splitext_stem file_name"] r
  have "map_of report (splitext_stem file_name) = Some orphan_record" by simp
  from filter_key_single[OF dr this]
  have one: "\<exists>r. filter (\<lambda>(host, r). host = splitext_stem file_name) report
                = [(splitext_stem file_name, r)] \<and>
              Groups r = ''No group assigned'' \<and> Orphaned_Host_Var r = ''Yes'' \<and>
              Missing_File r = ''No''"
    by (simp add: orphan_record_def)
  have "\<not> (Orphaned_Host_Var r' = ''Yes'' \<and> Missing_File r' = ''Yes'')"
    if "(k, r') \<in> set report" for k r'
  proof -
    from dr that have "map_of report k = Some r'" by simp
    with build_report_map_of[OF dh, of fmt "Some d" "keys d" gv hv k] r show ?thesis
      by (cases "map_of hosts k")
         (auto simp: orphan_record_def host_record_def Let_def split: if_splits)
  qed
  with one show ?thesis by blast
qed

text \<open>The theorem at \<open>ghost_inventory\<close> and the file \<open>ghost.yml\<close>.\<close>

theorem orphan_record_invariant_witness:
  "analyze_inventory id ghost_inventory = Inr ghost_report \<and>
   parse_hosts_ini ghost_inventory = Inr ([(''app1'', [''web''])], [(''web'', [''app1''])]) \<and>
   ''ghost.yml'' \<in> set (keys (case host_vars_dir ghost_inventory of Some d \<Rightarrow> d | None \<Rightarrow> [])) \<and>
   is_var_file ''ghost.yml'' \<and> splitext_stem ''ghost.yml'' = ''ghost'' \<and>
   ''ghost'' \<notin> set (keys [(''app1'', [''web''])]) \<and>
   (\<exists>r. filter (\<lambda>(host, r). host = ''ghost'') ghost_report = [(''ghost'', r)] \<and>
        Groups r = ''No group assigned'' \<and> Orphaned_Host_Var r = ''Yes'' \<and>
        Missing_File r = ''No'') \<and>
   list_all (\<lambda>(host, r). \<not> (Orphaned_Host_Var r = ''Yes'' \<and> Missing_File r = ''Yes''))
     ghost_report"
proof -
  have d: "host_vars_dir ghost_inventory =
      Some [(''app1.yml'', MapDoc [(''port'', ''8080'')]),
            (''ghost.yml'', MapDoc [(''port'', ''80'')])]"
    by (simp add: ghost_inventory_def)
  have k: "''ghost.yml'' \<in> set (keys [(''app1.yml'', MapDoc [(''port'', ''8080'')]),
                                      (''ghost.yml'', MapDoc [(''port'', ''80'')])])"
    by (simp add: keys_def)
  have v: "is_var_file ''ghost.yml''" by code_simp
  have st: "splitext_stem ''ghost.yml'' = ''ghost''" by code_simp
  have n: "splitext_stem ''ghost.yml'' \<notin> set (keys [(''app1'', [''web''])])"
    by (simp add: st keys_def)
  from orphan_record_invariant[OF analyze_ghost_inventory parse_ghost_inventory d k v n]
    analyze_ghost_inventory parse_ghost_inventory d k v n st
  show ?thesis by (simp add: keys_def list_all_iff)
qed

section \<open>find\_duplicates\<close>

text \<open>
  C10. On every mapping with at least one group \<open>find_duplicates\<close> raises \<open>NameError\<close>.
  \<open>analyze_inventory\<close> does not depend on it: whenever it returns, the field
  \<open>Duplicated Host\<close> of a host of the model is computed from the length of the host's
  group list alone.
\<close>

theorem find_duplicates_unbound_counter:
  "(gs \<noteq> [] \<longrightarrow> find_duplicates gs = Inl NameError) \<and>
   (parse_hosts_ini fs = Inr (hosts, groups) \<and> analyze_inventory fmt fs = Inr report \<and>
    map_of hosts host = Some group_list \<longrightarrow>
      (\<exists>r. map_of report host = Some r \<and>
           Duplicated_Host r = (if 1 < length group_list then join '', '' group_list
                                else ''No duplication in groups'')))"
proof -
  have "find_duplicates gs = Inl NameError" if "gs \<noteq> []"
    using that by (cases gs rule: find_duplicates.cases) simp_all
  moreover have "\<exists>r. map_of report host = Some r \<and>
           Duplicated_Host r = (if 1 < length group_list then join '', '' group_list
                                else ''No duplication in groups'')"
    if "parse_hosts_ini fs = Inr (hosts, groups)" "analyze_inventory fmt fs = Inr report"
       "map_of hosts host = Some group_list"
    using host_record_of_model[OF that(2) that(1) that(3)] by blast
  ultimately show ?thesis by blast
qed

text \<open>
  The theorem at \<open>duplicate_inventory\<close>: \<open>find_duplicates\<close> raises on the parsed groups,
  and the analysis returns with \<open>web, web\<close> for the host \<open>web\<close>.
\<close>

theorem find_duplicates_unbound_counter_witness:
  "[(''web'', [''web'', ''web''])] \<noteq> [] \<and>
   find_duplicates [(''web'', [''web'', ''web''])] = Inl NameError \<and>
   parse_hosts_ini duplicate_inventory =
     Inr ([(''web'', [''web'', ''web''])], [(''web'', [''web'', ''web''])]) \<and>
   analyze_inventory id duplicate_inventory = Inr duplicate_report \<and>
   map_of [(''web'', [''web'', ''web''])] ''web'' = Some [''web'', ''web''] \<and>
   (\<exists>r. map_of duplicate_report ''web'' = Some r \<and> Duplicated_Host r = ''web, web'')"
proof -
  have h: "map_of [(''web'', [''web'', ''web''])] ''web'' = Some [''web'', ''web'']" by simp
  from find_duplicates_unbound_counter
         [of "[(''web'', [''web'', ''web''])]" duplicate_inventory
             "[(''web'', [''web'', ''web''])]" "[(''web'', [''web'', ''web''])]" id
             duplicate_report "''web''" "[''web'', ''web'']"]
    analyze_duplicate_inventory parse_duplicate_inventory h
  show ?thesis by simp
qed

section \<open>The membership rewrite\<close>

lemma clean_line_written:
  "snd (clean_line analysis_results line) =
     (if keeps_line analysis_results line then [line] else [])"
  by (auto simp: clean_line_def keeps_line_def passes_through_def flagged_host_def Let_def
           split: option.splits)

lemma concat_clean_lines:
  "concat (map (snd \<circ> clean_line analysis_results) lines)
     = filter (keeps_line analysis_results) lines"
  by (induction lines) (simp_all add: clean_line_written)



section \<open>Cleanup of a host without a .yml file\<close>


lemma lookup_missing:
  "\<not> path_exists dir file_name \<Longrightarrow>
   (case dir of None \<Rightarrow> None | Some d \<Rightarrow> map_of d file_name) = None"
  by (cases dir) (auto simp: path_exists_def keys_def map_of_eq_None_iff)

lemma clean_host_file_missing:
  assumes "\<not> path_exists dir (host @ ''.yml'')"
  shows "clean_host_file (host, analysis) (out, dir)
           = Inr (out @ [HostFileNotFound (host @ ''.yml'')], dir)"
  using lookup_missing[OF assms] by (simp add: clean_host_file_def Let_def)

lemma clean_host_file_frame:
  assumes "clean_host_file (host, analysis) (out, Some d) = Inr (out', dir')"
  shows "\<exists>d'. dir' = Some d' \<and> keys d' = keys d \<and>
              (\<forall>file_name. file_name \<noteq> host @ ''.yml'' \<longrightarrow> map_of d' file_name = map_of d file_name)"
proof (cases "map_of d (host @ ''.yml'')")
  case None
  with assms show ?thesis by (auto simp: clean_host_file_def Let_def)
next
  case (Some content)
  then have k: "host @ ''.yml'' \<in> set (map fst d)"
    by (metis map_of_eq_None_iff option.distinct(1) set_map)
  from assms Some obtain data where "dir' = Some (AList.update (host @ ''.yml'') data d)"
    by (auto simp: clean_host_file_def Let_def split: prod.splits loaded.splits)
  with k show ?thesis by (simp add: keys_def update_keys update_conv')
qed



section \<open>The loader\<close>







section \<open>The cross-reference engine\<close>

lemma dict_get_list_append:
  "dict_get_list (dict_append k x d) k' =
     (if k' = k then dict_get_list d k @ [x] else dict_get_list d k')"
  by (simp add: dict_get_list_def map_of_dict_append)

lemma record_all_Nil: "record_all [] d = d"
  by (simp add: record_all_def)

lemma record_all_Cons: "record_all ((k, x) # occurrences) d = record_all occurrences (dict_append k x d)"
  by (simp add: record_all_def)

lemma record_all_append: "record_all (xs @ ys) d = record_all ys (record_all xs d)"
  by (simp add: record_all_def)

lemma dict_get_list_record_all:
  "dict_get_list (record_all occurrences d) k
     = dict_get_list d k @ map snd (filter (\<lambda>(k', x). k' = k) occurrences)"
proof (induction occurrences arbitrary: d)
  case Nil
  then show ?case by (simp add: record_all_Nil)
next
  case (Cons occ occurrences)
  obtain k' x where "occ = (k', x)" by (cases occ)
  with Cons show ?case by (simp add: record_all_Cons dict_get_list_append)
qed

lemma duplicate_inner:
  "foldl (\<lambda>duplicates var.
            if var \<in> set (keys host_data)
            then dict_append var x duplicates else duplicates) d vars
     = record_all (map (\<lambda>var. (var, x)) (filter (\<lambda>var. var \<in> set (keys host_data)) vars)) d"
  by (induction vars arbitrary: d) (simp_all add: record_all_Nil record_all_Cons)

lemma duplicate_hosts_loop:
  "foldl (\<lambda>duplicates (host_file, host_data).
            foldl (\<lambda>duplicates var.
                     if var \<in> set (keys host_data)
                     then dict_append var (group_file, splitext_stem host_file) duplicates
                     else duplicates)
                  duplicates (keys group_data)) d hv
     = record_all (concat (map (\<lambda>(host_file, host_data).
         map (\<lambda>var. (var, (group_file, splitext_stem host_file)))
           (filter (\<lambda>var. var \<in> set (keys host_data)) (keys group_data))) hv)) d"
proof (induction hv arbitrary: d)
  case Nil
  then show ?case by (simp add: record_all_Nil)
next
  case (Cons entry hv)
  obtain host_file host_data where "entry = (host_file, host_data)" by (cases entry)
  with Cons show ?case by (simp add: duplicate_inner record_all_append)
qed

lemma check_duplicate_vars_eq:
  "check_duplicate_vars gv hv = record_all (duplicate_occurrences gv hv) []"
proof -
  have "foldl (\<lambda>duplicates (group_file, group_data).
       foldl (\<lambda>duplicates (host_file, host_data).
         let host_name = splitext_stem host_file in
         foldl (\<lambda>duplicates var.
                  if var \<in> set (keys host_data)
                  then dict_append var (group_file, host_name) duplicates
                  else duplicates)
               duplicates (keys group_data))
         duplicates hv) d gv = record_all (duplicate_occurrences gv hv) d" for d
  proof (induction gv arbitrary: d)
    case Nil
    then show ?case by (simp add: record_all_Nil duplicate_occurrences_def)
  next
    case (Cons entry gv)
    obtain group_file group_data where "entry = (group_file, group_data)" by (cases entry)
    with Cons show ?case
      by (simp add: Let_def duplicate_hosts_loop record_all_append duplicate_occurrences_def)
  qed
  then show ?thesis by (simp add: check_duplicate_vars_def)
qed

lemma inconsistent_inner:
  "foldl (\<lambda>inconsistencies (var, group_value).
            (case map_of host_data var of
               None \<Rightarrow> inconsistencies
             | Some host_value \<Rightarrow>
                 if host_value \<noteq> group_value
                 then dict_append var
                        \<lparr>cf_group_file = group_file, cf_host_file = host_name,
                         cf_group_value = group_value, cf_host_value = host_value\<rparr>
                        inconsistencies
                 else inconsistencies)) d group_data
     = record_all (concat (map (\<lambda>(var, group_value).
           (case map_of host_data var of
              None \<Rightarrow> []
            | Some host_value \<Rightarrow>
                if host_value \<noteq> group_value
                then [(var, \<lparr>cf_group_file = group_file, cf_host_file = host_name,
                             cf_group_value = group_value, cf_host_value = host_value\<rparr>)]
                else [])) group_data)) d"
proof (induction group_data arbitrary: d)
  case Nil
  then show ?case by (simp add: record_all_Nil)
next
  case (Cons entry group_data)
  obtain var group_value where "entry = (var, group_value)" by (cases entry)
  with Cons show ?case
    by (simp add: record_all_Nil record_all_Cons record_all_append split: option.splits)
qed

lemma inconsistent_hosts_loop:
  "foldl (\<lambda>inconsistencies (host_file, host_data).
            foldl (\<lambda>inconsistencies (var, group_value).
                     (case map_of host_data var of
                        None \<Rightarrow> inconsistencies
                      | Some host_value \<Rightarrow>
                          if host_value \<noteq> group_value
                          then dict_append var
                                 \<lparr>cf_group_file = group_file,
                                  cf_host_file = splitext_stem host_file,
                                  cf_group_value = group_value, cf_host_value = host_value\<rparr>
                                 inconsistencies
                          else inconsistencies))
                  inconsistencies group_data) d hv
     = record_all (concat (map (\<lambda>(host_file, host_data).
         concat (map (\<lambda>(var, group_value).
           (case map_of host_data var of
              None \<Rightarrow> []
            | Some host_value \<Rightarrow>
                if host_value \<noteq> group_value
                then [(var, \<lparr>cf_group_file = group_file, cf_host_file = splitext_stem host_file,
                             cf_group_value = group_value, cf_host_value = host_value\<rparr>)]
                else [])) group_data)) hv)) d"
proof (induction hv arbitrary: d)
  case Nil
  then show ?case by (simp add: record_all_Nil)
next
  case (Cons entry hv)
  obtain host_file host_data where "entry = (host_file, host_data)" by (cases entry)
  with Cons show ?case by (simp add: inconsistent_inner record_all_append)
qed

lemma check_inconsistent_values_eq:
  "check_inconsistent_values gv hv = record_all (inconsistency_occurrences gv hv) []"
proof -
  have "foldl (\<lambda>inconsistencies (group_file, group_data).
       foldl (\<lambda>inconsistencies (host_file, host_data).
         let host_name = splitext_stem host_file in
         foldl (\<lambda>inconsistencies (var, group_value).
                  (case map_of host_data var of
                     None \<Rightarrow> inconsistencies
                   | Some host_value \<Rightarrow>
                       if host_value \<noteq> group_value
                       then dict_append var
                              \<lparr>cf_group_file = group_file, cf_host_file = host_name,
                               cf_group_value = group_value, cf_host_value = host_value\<rparr>
                              inconsistencies
                       else inconsistencies))
               inconsistencies group_data)
         inconsistencies hv) d gv = record_all (inconsistency_occurrences gv hv) d" for d
  proof (induction gv arbitrary: d)
    case Nil
    then show ?case by (simp add: record_all_Nil inconsistency_occurrences_def)
  next
    case (Cons entry gv)
    obtain group_file group_data where "entry = (group_file, group_data)" by (cases entry)
    with Cons show ?case
      by (simp add: Let_def inconsistent_hosts_loop record_all_append
            inconsistency_occurrences_def)
  qed
  then show ?thesis by (simp add: check_inconsistent_values_def)
qed

lemma in_concat_map: "y \<in> set ys \<Longrightarrow> x \<in> set (f y) \<Longrightarrow> x \<in> set (concat (map f ys))"
  by auto

lemma duplicate_occurrences_iff:
  "(var, (group_file, host_name)) \<in> set (duplicate_occurrences gv hv) \<longleftrightarrow>
     (\<exists>group_data host_file host_data.
        (group_file, group_data) \<in> set gv \<and> (host_file, host_data) \<in> set hv \<and>
        host_name = splitext_stem host_file \<and>
        var \<in> set (keys group_data) \<and> var \<in> set (keys host_data))"
  by (auto simp: duplicate_occurrences_def) blast+

lemma inconsistency_occurrences_iff:
  "(var, c) \<in> set (inconsistency_occurrences gv hv) \<longleftrightarrow>
     (\<exists>group_data host_file host_data.
        (cf_group_file c, group_data) \<in> set gv \<and> (host_file, host_data) \<in> set hv \<and>
        cf_host_file c = splitext_stem host_file \<and>
        (var, cf_group_value c) \<in> set group_data \<and>
        map_of host_data var = Some (cf_host_value c) \<and>
        cf_host_value c \<noteq> cf_group_value c)"
  (is "?l \<longleftrightarrow> ?r")
proof
  assume ?l
  then show ?r
    by (auto simp: inconsistency_occurrences_def split: option.splits if_splits) force+
next
  assume ?r
  then obtain group_data host_file host_data where
    g: "(cf_group_file c, group_data) \<in> set gv" and h: "(host_file, host_data) \<in> set hv"
    and n: "cf_host_file c = splitext_stem host_file"
    and v: "(var, cf_group_value c) \<in> set group_data"
    and m: "map_of host_data var = Some (cf_host_value c)"
    and ne: "cf_host_value c \<noteq> cf_group_value c" by blast
  have c: "c = \<lparr>cf_group_file = cf_group_file c, cf_host_file = splitext_stem host_file,
                cf_group_value = cf_group_value c, cf_host_value = cf_host_value c\<rparr>"
    using n by simp
  have 1: "(var, c) \<in> set (concat (map (\<lambda>(var, group_value).
           (case map_of host_data var of
              None \<Rightarrow> []
            | Some host_value \<Rightarrow>
                if host_value \<noteq> group_value
                then [(var, \<lparr>cf_group_file = cf_group_file c,
                             cf_host_file = splitext_stem host_file,
                             cf_group_value = group_value, cf_host_value = host_value\<rparr>)]
                else [])) group_data))"
    by (rule in_concat_map[OF v]) (use m ne c in simp)
  have 2: "(var, c) \<in> set (concat (map (\<lambda>(host_file, host_data).
         concat (map (\<lambda>(var, group_value).
           (case map_of host_data var of
              None \<Rightarrow> []
            | Some host_value \<Rightarrow>
                if host_value \<noteq> group_value
                then [(var, \<lparr>cf_group_file = cf_group_file c,
                             cf_host_file = splitext_stem host_file,
                             cf_group_value = group_value, cf_host_value = host_value\<rparr>)]
                else [])) group_data)) hv))"
    by (rule in_concat_map[OF h]) (use 1 in simp)
  show ?l
    unfolding inconsistency_occurrences_def
    by (rule in_concat_map[OF g]) (use 2 in simp)
qed

lemma dict_get_list_Nil: "dict_get_list [] k = []"
  by (simp add: dict_get_list_def)

lemma set_dict_get_list_record_all:
  "x \<in> set (dict_get_list (record_all occurrences []) k) \<longleftrightarrow> (k, x) \<in> set occurrences"
proof -
  have "set (dict_get_list (record_all occurrences []) k)
      = snd ` {p \<in> set occurrences. fst p = k}"
    by (simp add: dict_get_list_record_all dict_get_list_Nil case_prod_unfold)
  then show ?thesis by force
qed

text \<open>
  C2. Both passes compare every group file with every host file of the two collections;
  membership of the host in the group is no input of either. The duplicate pass records
  \<open>(group_file, host_name)\<close> under a key exactly when some group document of that file
  and some host document whose file name has the stem \<open>host_name\<close> (\<open>os.path.splitext\<close>)
  both have the key. The inconsistency pass records a conflict under a key exactly when
  such a pair has the key with the two values of the conflict and the values differ.
\<close>

theorem all_pairs_cross_reference:
  "((group_file, host_name) \<in> set (dict_get_list (check_duplicate_vars gv hv) var) \<longleftrightarrow>
      (\<exists>group_data host_file host_data.
         (group_file, group_data) \<in> set gv \<and> (host_file, host_data) \<in> set hv \<and>
         host_name = splitext_stem host_file \<and>
         var \<in> set (keys group_data) \<and> var \<in> set (keys host_data))) \<and>
   (c \<in> set (dict_get_list (check_inconsistent_values gv hv) var) \<longleftrightarrow>
      (\<exists>group_data host_file host_data.
         (cf_group_file c, group_data) \<in> set gv \<and> (host_file, host_data) \<in> set hv \<and>
         cf_host_file c = splitext_stem host_file \<and>
         (var, cf_group_value c) \<in> set group_data \<and>
         map_of host_data var = Some (cf_host_value c) \<and>
         cf_host_value c \<noteq> cf_group_value c))"
  by (simp only: check_duplicate_vars_eq check_inconsistent_values_eq
        set_dict_get_list_record_all duplicate_occurrences_iff inconsistency_occurrences_iff)

text \<open>
  The theorem at \<open>cross_group_vars\<close> and \<open>cross_host_vars\<close>: \<open>port\<close> of \<open>app1\<close> is recorded
  against \<open>db.yml\<close>, a group the host is no member of, in both passes.
\<close>

theorem all_pairs_cross_reference_witness:
  "check_duplicate_vars cross_group_vars cross_host_vars =
     [(''port'', [(''web.yml'', ''app1''), (''web.yml'', ''db1''), (''db.yml'', ''app1''),
                  (''db.yml'', ''db1'')]),
      (''env'', [(''web.yml'', ''app1'')])] \<and>
   check_inconsistent_values cross_group_vars cross_host_vars =
     [(''port'',
       [\<lparr>cf_group_file = ''web.yml'', cf_host_file = ''app1'',
          cf_group_value = ''80'', cf_host_value = ''8080''\<rparr>,
        \<lparr>cf_group_file = ''web.yml'', cf_host_file = ''db1'',
          cf_group_value = ''80'', cf_host_value = ''5432''\<rparr>,
        \<lparr>cf_group_file = ''db.yml'', cf_host_file = ''app1'',
          cf_group_value = ''5432'', cf_host_value = ''8080''\<rparr>])] \<and>
   (\<exists>group_data host_file host_data.
      (''db.yml'', group_data) \<in> set cross_group_vars \<and>
      (host_file, host_data) \<in> set cross_host_vars \<and>
      ''app1'' = splitext_stem host_file \<and>
      ''port'' \<in> set (keys group_data) \<and> ''port'' \<in> set (keys host_data)) \<and>
   (\<exists>group_data host_file host_data.
      (''db.yml'', group_data) \<in> set cross_group_vars \<and>
      (host_file, host_data) \<in> set cross_host_vars \<and>
      ''app1'' = splitext_stem host_file \<and>
      (''port'', ''5432'') \<in> set group_data \<and>
      map_of host_data ''port'' = Some ''8080'')"
proof -
  let ?c = "\<lparr>cf_group_file = ''db.yml'', cf_host_file = ''app1'',
             cf_group_value = ''5432'', cf_host_value = ''8080''\<rparr>"
  have d: "check_duplicate_vars cross_group_vars cross_host_vars =
     [(''port'', [(''web.yml'', ''app1''), (''web.yml'', ''db1''), (''db.yml'', ''app1''),
                  (''db.yml'', ''db1'')]),
      (''env'', [(''web.yml'', ''app1'')])]"
    by code_simp
  have i: "check_inconsistent_values cross_group_vars cross_host_vars =
     [(''port'',
       [\<lparr>cf_group_file = ''web.yml'', cf_host_file = ''app1'',
          cf_group_value = ''80'', cf_host_value = ''8080''\<rparr>,
        \<lparr>cf_group_file = ''web.yml'', cf_host_file = ''db1'',
          cf_group_value = ''80'', cf_host_value = ''5432''\<rparr>,
        \<lparr>cf_group_file = ''db.yml'', cf_host_file = ''app1'',
          cf_group_value = ''5432'', cf_host_value = ''8080''\<rparr>])]"
    by code_simp
  have md: "(''db.yml'', ''app1'')
      \<in> set (dict_get_list (check_duplicate_vars cross_group_vars cross_host_vars) ''port'')"
    by (simp add: d dict_get_list_def)
  have mi: "?c \<in> set (dict_get_list
      (check_inconsistent_values cross_group_vars cross_host_vars) ''port'')"
    by (simp add: i dict_get_list_def)
  note t = all_pairs_cross_reference
             [of "''db.yml''" "''app1''" cross_group_vars cross_host_vars "''port''" ?c]
  from t md have 1: "\<exists>group_data host_file host_data.
      (''db.yml'', group_data) \<in> set cross_group_vars \<and>
      (host_file, host_data) \<in> set cross_host_vars \<and>
      ''app1'' = splitext_stem host_file \<and>
      ''port'' \<in> set (keys group_data) \<and> ''port'' \<in> set (keys host_data)"
    by blast
  from t mi have "\<exists>group_data host_file host_data.
      (cf_group_file ?c, group_data) \<in> set cross_group_vars \<and>
      (host_file, host_data) \<in> set cross_host_vars \<and>
      cf_host_file ?c = splitext_stem host_file \<and>
      (''port'', cf_group_value ?c) \<in> set group_data \<and>
      map_of host_data ''port'' = Some (cf_host_value ?c) \<and>
      cf_host_value ?c \<noteq> cf_group_value ?c"
    by blast
  then have 2: "\<exists>group_data host_file host_data.
      (''db.yml'', group_data) \<in> set cross_group_vars \<and>
      (host_file, host_data) \<in> set cross_host_vars \<and>
      ''app1'' = splitext_stem host_file \<and>
      (''port'', ''5432'') \<in> set group_data \<and>
      map_of host_data ''port'' = Some ''8080''"
    by simp
  from d i 1 2 show ?thesis by blast
qed

section \<open>Cleanup of variable files\<close>

text \<open>
  C3, evaluated on \<open>collision_inventory\<close>. The report of the analysis names \<open>port\<close> in
  both fields of \<open>app1\<close>. The lookup table of \<open>clean_host_vars\<close> keeps one key for each
  lower-case form, here \<open>Port\<close> for \<open>port\<close>, so the cleanup deletes \<open>Port\<close>, and the key
  \<open>port\<close> that the report names is still in the rewritten file.
\<close>

theorem flagged_key_survives_cleanup:
  "analyze_inventory id collision_inventory = Inr collision_report \<and>
   flagged_names (Duplicated_Variables (snd (hd collision_report))) = [''port''] \<and>
   case_insensitive [(''port'', ''8080''), (''Port'', ''1'')] = [(''port'', ''Port'')] \<and>
   clean_host_vars collision_inventory collision_report
     = Inr ([RemovingDuplicatedVar ''Port'' ''app1.yml''], collision_cleaned) \<and>
   host_vars_dir collision_cleaned = Some [(''app1.yml'', MapDoc [(''port'', ''8080'')])]"
  by code_simp

text \<open>
  C4, evaluated on \<open>collision_inventory\<close>. The first cleanup leaves \<open>port\<close> in the file of
  \<open>app1\<close>; a second cleanup with the same report finds \<open>port\<close> in its lookup table and
  deletes it, so the second run changes the file.
\<close>

theorem second_cleanup_changes_file:
  "clean_inventory collision_inventory collision_report
     = Inr ([CompletedHosts, RemovingDuplicatedVar ''Port'' ''app1.yml''], collision_cleaned) \<and>
   clean_inventory collision_cleaned collision_report
     = Inr ([CompletedHosts, RemovingDuplicatedVar ''port'' ''app1.yml''],
            collision_cleaned_twice) \<and>
   host_vars_dir collision_cleaned_twice \<noteq> host_vars_dir collision_cleaned"
  by code_simp

section \<open>What the cleanup of a variable file writes\<close>

lemma snd_foldl_remove_var:
  "snd (foldl (remove_var removing host_data_ci) st names)
     = remove_keys host_data_ci names (snd st)"
proof (induction names arbitrary: st)
  case Nil
  then show ?case by (simp add: remove_keys_def)
next
  case (Cons var names)
  have "snd (remove_var removing host_data_ci st var)
      = (case map_of host_data_ci var of
           None \<Rightarrow> snd st
         | Some original_var \<Rightarrow>
             if original_var \<noteq> [] \<and> original_var \<in> set (keys (snd st))
             then AList.delete original_var (snd st) else snd st)"
    by (cases st) (auto simp: remove_var_def split: option.splits)
  with Cons.IH[of "remove_var removing host_data_ci st var"] show ?case
    by (simp add: remove_keys_def)
qed

lemma remove_keys_append:
  "remove_keys ci (xs @ ys) data = remove_keys ci ys (remove_keys ci xs data)"
  by (simp add: remove_keys_def)

lemma clean_host_file_written:
  assumes "map_of d (host @ ''.yml'') = Some content"
    and "snd (load_yaml_file (host @ ''.yml'') content) = Dict host_data"
  shows "\<exists>out'. clean_host_file (host, analysis) (out, Some d) =
           Inr (out', Some (AList.update (host @ ''.yml'')
                  (save_yaml_file (remove_keys (case_insensitive host_data)
                                     (removal_names analysis) host_data)) d))"
proof -
  obtain printed where l: "load_yaml_file (host @ ''.yml'') content = (printed, Dict host_data)"
    using assms(2) by (cases "load_yaml_file (host @ ''.yml'') content") simp
  show ?thesis
    using assms(1) l
    by (simp add: clean_host_file_def Let_def removal_names_def remove_keys_append
          snd_foldl_remove_var remove_keys_def[of _ "[]"])
qed

lemma remove_keys_Cons:
  "remove_keys ci (var # names) data =
     remove_keys ci names
       (case map_of ci var of
          None \<Rightarrow> data
        | Some original_var \<Rightarrow>
            if original_var \<noteq> [] \<and> original_var \<in> set (keys data)
            then AList.delete original_var data else data)"
  by (simp add: remove_keys_def)

lemma map_of_remove_keys_other:
  "\<forall>var \<in> set names. map_of ci var \<noteq> Some k \<Longrightarrow>
   map_of (remove_keys ci names data) k = map_of data k"
proof (induction names arbitrary: data)
  case Nil
  then show ?case by (simp add: remove_keys_def)
next
  case (Cons var names)
  then show ?case
    by (cases "map_of ci var") (auto simp: remove_keys_Cons delete_conv')
qed

lemma map_of_remove_keys_absent:
  "map_of data k = None \<Longrightarrow> map_of (remove_keys ci names data) k = None"
proof (induction names arbitrary: data)
  case Nil
  then show ?case by (simp add: remove_keys_def)
next
  case (Cons var names)
  then show ?case
    by (cases "map_of ci var") (auto simp: remove_keys_Cons delete_conv')
qed

lemma map_of_remove_keys_named:
  assumes "var \<in> set names" and "map_of ci var = Some k" and "k \<noteq> []"
  shows "map_of (remove_keys ci names data) k = None"
  using assms(1)
proof (induction names arbitrary: data)
  case Nil
  then show ?case by simp
next
  case (Cons var' names)
  show ?case
  proof (cases "var' = var")
    case True
    have "map_of (if k \<in> set (keys data) then AList.delete k data else data) k = None"
    proof (cases "k \<in> set (keys data)")
      case True
      then show ?thesis by (simp add: delete_conv')
    next
      case False
      then show ?thesis by (simp add: keys_def map_of_eq_None_iff)
    qed
    then show ?thesis
      using True assms(2,3) by (simp add: remove_keys_Cons map_of_remove_keys_absent)
  next
    case False
    with Cons show ?thesis by (simp add: remove_keys_Cons)
  qed
qed

lemma distinct_remove_keys:
  "distinct (keys data) \<Longrightarrow> distinct (keys (remove_keys ci names data))"
proof (induction names arbitrary: data)
  case Nil
  then show ?case by (simp add: remove_keys_def)
next
  case (Cons var names)
  then show ?case
    by (cases "map_of ci var") (auto simp: remove_keys_Cons keys_def distinct_delete)
qed

lemma case_insensitive_snoc:
  "case_insensitive (data @ [(k, v)]) = AList.update (lower k) k (case_insensitive data)"
  by (simp add: case_insensitive_def keys_def)

lemma case_insensitive_Some:
  "map_of (case_insensitive data) n = Some original_var \<Longrightarrow>
   lower original_var = n \<and> original_var \<in> set (keys data)"
proof (induction data rule: rev_induct)
  case Nil
  then show ?case by (simp add: case_insensitive_def keys_def)
next
  case (snoc entry data)
  obtain k v where "entry = (k, v)" by (cases entry)
  with snoc show ?case
    by (auto simp: case_insensitive_snoc update_conv' keys_def split: if_splits)
qed

lemma case_insensitive_unique:
  assumes "k \<in> set (keys data)"
    and "\<forall>k' \<in> set (keys data). lower k' = lower k \<longrightarrow> k' = k"
  shows "map_of (case_insensitive data) (lower k) = Some k"
  using assms
proof (induction data rule: rev_induct)
  case Nil
  then show ?case by (simp add: keys_def)
next
  case (snoc entry data)
  obtain k' v where entry: "entry = (k', v)" by (cases entry)
  show ?case
  proof (cases "k' = k")
    case True
    with entry show ?thesis by (simp add: case_insensitive_snoc update_conv')
  next
    case False
    with snoc.prems entry have "lower k' \<noteq> lower k" and "k \<in> set (keys data)"
      by (auto simp: keys_def)
    moreover from snoc.prems have "\<forall>k' \<in> set (keys data). lower k' = lower k \<longrightarrow> k' = k"
      by (auto simp: keys_def)
    ultimately show ?thesis using snoc.IH entry
      by (simp add: case_insensitive_snoc update_conv')
  qed
qed

lemma distinct_keys_sort_key:
  "distinct (keys data) \<Longrightarrow> distinct (keys (sort_key fst data))"
  by (simp add: keys_def distinct_map)

lemma map_of_sort_key:
  assumes "distinct (keys data)"
  shows "map_of (sort_key fst data) = map_of data"
proof -
  from assms have "distinct (map fst data)" "distinct (map fst (sort_key fst data))"
    using distinct_keys_sort_key[OF assms] by (simp_all add: keys_def)
  then show ?thesis by (simp add: map_of_inject_set)
qed

lemma clean_host_file_MapDoc:
  assumes "map_of d (host @ ''.yml'') = Some (MapDoc host_data)"
  shows "\<exists>out'. clean_host_file (host, analysis) (out, Some d) =
           Inr (out', Some (AList.update (host @ ''.yml'')
                  (MapDoc (sort_key fst (remove_keys (case_insensitive host_data)
                                           (removal_names analysis) host_data))) d))"
  using clean_host_file_written[OF assms, of host_data analysis out]
  by (simp add: load_yaml_file_def save_yaml_file_def)

text \<open>
  What the cleanup does keep of the round trip: a key whose lower-case form is none of the names
  looked up stays in the rewritten document with its value.
\<close>

lemma unnamed_keys_preserved:
  assumes "map_of d (host @ ''.yml'') = Some (MapDoc host_data)"
    and "distinct (keys host_data)"
    and "map_of host_data k = Some v"
    and "lower k \<notin> set (removal_names analysis)"
  shows "\<exists>out' written. clean_host_file (host, analysis) (out, Some d) =
           Inr (out', Some (AList.update (host @ ''.yml'') (MapDoc written) d)) \<and>
           map_of written k = Some v"
proof -
  let ?kept = "remove_keys (case_insensitive host_data) (removal_names analysis) host_data"
  have "\<forall>var \<in> set (removal_names analysis). map_of (case_insensitive host_data) var \<noteq> Some k"
    using assms(4) case_insensitive_Some by blast
  then have "map_of ?kept k = Some v"
    using assms(3) by (simp add: map_of_remove_keys_other)
  moreover have "distinct (keys ?kept)" using assms(2) by (rule distinct_remove_keys)
  ultimately have "map_of (sort_key fst ?kept) k = Some v" by (simp add: map_of_sort_key)
  with clean_host_file_MapDoc[OF assms(1), of analysis out] show ?thesis by blast
qed

text \<open>
  A named key is removed when it is not empty and no other key of the document has its
  lower-case form.
\<close>

lemma named_key_removed_if_unique:
  assumes "map_of d (host @ ''.yml'') = Some (MapDoc host_data)"
    and "distinct (keys host_data)"
    and "k \<in> set (keys host_data)" and "k \<noteq> []"
    and "lower k \<in> set (removal_names analysis)"
    and "\<forall>k' \<in> set (keys host_data). lower k' = lower k \<longrightarrow> k' = k"
  shows "\<exists>out' written. clean_host_file (host, analysis) (out, Some d) =
           Inr (out', Some (AList.update (host @ ''.yml'') (MapDoc written) d)) \<and>
           map_of written k = None"
proof -
  let ?kept = "remove_keys (case_insensitive host_data) (removal_names analysis) host_data"
  have "map_of (case_insensitive host_data) (lower k) = Some k"
    using assms(3,6) by (rule case_insensitive_unique)
  from map_of_remove_keys_named[OF assms(5) this assms(4)]
  have "map_of ?kept k = None" .
  moreover have "distinct (keys ?kept)" using assms(2) by (rule distinct_remove_keys)
  ultimately have "map_of (sort_key fst ?kept) k = None" by (simp add: map_of_sort_key)
  with clean_host_file_MapDoc[OF assms(1), of analysis out] show ?thesis by blast
qed

text \<open>The membership rewrite alone is idempotent.\<close>

lemma clean_hosts_idempotent:
  assumes "clean_hosts fs analysis_results = Inr (out, fs')"
  shows "\<exists>out'. clean_hosts fs' analysis_results = Inr (out', fs')"
proof -
  from assms obtain lines where l: "hosts_file fs = Some lines"
    by (auto simp: clean_hosts_def split: option.splits)
  with assms have fs': "fs' = fs\<lparr>hosts_file := Some (filter (keeps_line analysis_results) lines)\<rparr>"
    by (simp add: clean_hosts_def Let_def concat_clean_lines)
  then show ?thesis
    by (simp add: clean_hosts_def Let_def concat_clean_lines)
qed

section \<open>Idempotence of the cleanup without keys that differ in case only\<close>

lemma remove_keys_unchanged:
  "\<forall>var \<in> set names. \<forall>k. map_of ci var = Some k \<longrightarrow> k = [] \<or> k \<notin> set (keys data) \<Longrightarrow>
   remove_keys ci names data = data"
proof (induction names)
  case Nil
  then show ?case by (simp add: remove_keys_def)
next
  case (Cons var names)
  then show ?case
    by (cases "map_of ci var") (auto simp: remove_keys_Cons)
qed

lemma keys_remove_keys: "set (keys (remove_keys ci names data)) \<subseteq> set (keys data)"
proof (induction names arbitrary: data)
  case Nil
  then show ?case by (simp add: remove_keys_def)
next
  case (Cons var names)
  have "set (keys (AList.delete k data)) \<subseteq> set (keys data)" for k
    by (auto simp: keys_def AList.delete_eq)
  with Cons[of "AList.delete _ data"] Cons[of data] show ?case
    by (cases "map_of ci var") (auto simp: remove_keys_Cons, blast)
qed

lemma lower_distinct_remove_keys:
  "distinct (map lower (keys data)) \<Longrightarrow>
   distinct (map lower (keys (remove_keys ci names data)))"
proof (induction names arbitrary: data)
  case Nil
  then show ?case by (simp add: remove_keys_def)
next
  case (Cons var names)
  have "distinct (map lower (keys (AList.delete k data)))" for k
  proof -
    have "map lower (keys (AList.delete k data))
        = map (lower \<circ> fst) (filter (\<lambda>(k', v). k \<noteq> k') data)"
      by (simp add: keys_def AList.delete_eq)
    moreover from Cons.prems have "distinct (map (lower \<circ> fst) data)"
      by (simp add: keys_def)
    ultimately show ?thesis by (simp add: distinct_map_filter)
  qed
  with Cons show ?case
    by (cases "map_of ci var") (auto simp: remove_keys_Cons)
qed

lemma lower_distinct_keys:
  "distinct (map lower (keys data)) \<Longrightarrow> distinct (keys data)"
  by (simp add: distinct_map)

lemma lower_distinct_unique:
  assumes "distinct (map lower (keys data))" and "k \<in> set (keys data)"
  shows "\<forall>k' \<in> set (keys data). lower k' = lower k \<longrightarrow> k' = k"
  using assms by (auto simp: distinct_map inj_on_def)

lemma lower_distinct_sort_key:
  "distinct (map lower (keys data)) \<Longrightarrow> distinct (map lower (keys (sort_key fst data)))"
proof -
  assume a: "distinct (map lower (keys data))"
  then have "distinct data" and "inj_on (lower \<circ> fst) (set data)"
    by (simp_all add: keys_def distinct_map)
  then have "distinct (map (lower \<circ> fst) (sort_key fst data))"
    by (simp add: distinct_map)
  then show ?thesis by (simp add: keys_def)
qed

lemma cleaned_document_fixed:
  assumes "distinct (map lower (keys data))"
    and written_def: "written = sort_key fst (remove_keys (case_insensitive data) names data)"
  shows "sort_key fst (remove_keys (case_insensitive written) names written) = written"
proof -
  let ?kept = "remove_keys (case_insensitive data) names data"
  have dk: "distinct (keys ?kept)"
    using lower_distinct_keys[OF assms(1)] by (rule distinct_remove_keys)
  have "k = [] \<or> k \<notin> set (keys written)"
    if v: "var \<in> set names" and m: "map_of (case_insensitive written) var = Some k" for var k
  proof (rule ccontr)
    assume "\<not> (k = [] \<or> k \<notin> set (keys written))"
    then have ne: "k \<noteq> []" and kw: "k \<in> set (keys written)" by simp_all
    from kw have kk: "k \<in> set (keys ?kept)" by (simp add: written_def keys_def)
    with keys_remove_keys have kd: "k \<in> set (keys data)" by blast
    from case_insensitive_Some[OF m] have "lower k = var" by simp
    moreover have "map_of (case_insensitive data) (lower k) = Some k"
      using kd lower_distinct_unique[OF assms(1) kd] by (rule case_insensitive_unique)
    ultimately have "map_of ?kept k = None"
      using map_of_remove_keys_named[of var names "case_insensitive data" k data] v ne by simp
    with kk show False by (simp add: keys_def map_of_eq_None_iff)
  qed
  then have "remove_keys (case_insensitive written) names written = written"
    by (intro remove_keys_unchanged) blast
  moreover have "sort_key fst written = written"
    unfolding written_def by (rule sort_key_id_if_sorted) (rule sorted_sort_key)
  ultimately show ?thesis by simp
qed

lemma clean_host_file_Inr:
  assumes "clean_host_file (host, analysis) (out, Some d) = Inr (out', dir')"
  shows "(map_of d (host @ ''.yml'') = None \<and> dir' = Some d) \<or>
         (\<exists>content host_data.
            map_of d (host @ ''.yml'') = Some content \<and>
            snd (load_yaml_file (host @ ''.yml'') content) = Dict host_data \<and>
            dir' = Some (AList.update (host @ ''.yml'')
                     (save_yaml_file (remove_keys (case_insensitive host_data)
                                        (removal_names analysis) host_data)) d))"
proof (cases "map_of d (host @ ''.yml'')")
  case None
  with assms show ?thesis by (auto simp: clean_host_file_def Let_def)
next
  case (Some content)
  show ?thesis
  proof (cases "snd (load_yaml_file (host @ ''.yml'') content)")
    case (Dict host_data)
    from clean_host_file_written[OF Some Dict, of analysis out] assms Some Dict
    show ?thesis by auto
  next
    case (NonDict v)
    with assms Some show ?thesis
      by (auto simp: clean_host_file_def Let_def split: prod.splits)
  qed
qed

lemma loaded_lower_distinct:
  assumes "case_distinct d" and "map_of d file_name = Some content"
    and "snd (load_yaml_file file_name content) = Dict host_data"
  shows "distinct (map lower (keys host_data))"
proof (cases content)
  case (MapDoc data)
  from assms(2) have "(file_name, content) \<in> set d" by (rule map_of_SomeD)
  with assms(1) MapDoc have "distinct (map lower (keys data))"
    by (auto simp: case_distinct_def)
  with assms(3) MapDoc show ?thesis by (simp add: load_yaml_file_def)
qed (use assms(3) in \<open>auto simp: load_yaml_file_def keys_def\<close>)

lemma case_distinct_update:
  assumes "case_distinct d" and "distinct (map lower (keys data))"
  shows "case_distinct (AList.update file_name (MapDoc data) d)"
proof -
  have "set (AList.update file_name (MapDoc data) d) \<subseteq> insert (file_name, MapDoc data) (set d)"
    by (induction d) auto
  with assms show ?thesis by (fastforce simp: case_distinct_def)
qed

lemma clean_host_file_fixed:
  assumes "map_of d (host @ ''.yml'') = Some (MapDoc written)"
    and "sort_key fst (remove_keys (case_insensitive written) (removal_names analysis) written)
           = written"
  shows "\<exists>out'. clean_host_file (host, analysis) (out, Some d) = Inr (out', Some d)"
  using clean_host_file_MapDoc[OF assms(1), of analysis out] assms
  by (simp add: update_triv)

lemma clean_host_vars_loop_frame:
  "clean_host_vars_loop analysis_results (out, Some d) = Inr (out', dir') \<Longrightarrow>
   \<exists>d'. dir' = Some d' \<and>
        (\<forall>file_name. file_name \<notin> (\<lambda>host. host @ ''.yml'') ` set (keys analysis_results) \<longrightarrow>
           map_of d' file_name = map_of d file_name)"
proof (induction analysis_results arbitrary: out d)
  case Nil
  then show ?case by auto
next
  case (Cons entry rest)
  obtain host analysis where entry: "entry = (host, analysis)" by (cases entry)
  from Cons.prems entry obtain out1 dir1 where
    s: "clean_host_file (host, analysis) (out, Some d) = Inr (out1, dir1)"
    and l: "clean_host_vars_loop rest (out1, dir1) = Inr (out', dir')"
    by (auto split: sum.splits)
  from clean_host_file_frame[OF s] obtain d1 where d1: "dir1 = Some d1"
    and f1: "\<forall>file_name. file_name \<noteq> host @ ''.yml'' \<longrightarrow> map_of d1 file_name = map_of d file_name"
    by blast
  from Cons.IH[OF l[unfolded d1]] obtain d' where "dir' = Some d'"
    and "\<forall>file_name. file_name \<notin> (\<lambda>host. host @ ''.yml'') ` set (keys rest) \<longrightarrow>
           map_of d' file_name = map_of d1 file_name" by blast
  with f1 entry show ?case by (auto simp: keys_def)
qed

lemma clean_host_vars_loop_idempotent:
  assumes "distinct (keys analysis_results)" and "case_distinct d"
    and "clean_host_vars_loop analysis_results (out, Some d) = Inr (out', dir')"
  shows "\<exists>d'. dir' = Some d' \<and> case_distinct d' \<and>
              (\<forall>out2. \<exists>out3. clean_host_vars_loop analysis_results (out2, Some d')
                                 = Inr (out3, Some d'))"
  using assms
proof (induction analysis_results arbitrary: out d)
  case Nil
  then show ?case by auto
next
  case (Cons entry rest)
  obtain host analysis where entry: "entry = (host, analysis)" by (cases entry)
  let ?file = "host @ ''.yml''"
  from Cons.prems(3) entry obtain out1 dir1 where
    s: "clean_host_file (host, analysis) (out, Some d) = Inr (out1, dir1)"
    and l: "clean_host_vars_loop rest (out1, dir1) = Inr (out', dir')"
    by (auto split: sum.splits)
  from Cons.prems(1) entry have dr: "distinct (keys rest)" and nh: "host \<notin> set (keys rest)"
    by (simp_all add: keys_def)
  then have nf: "?file \<notin> (\<lambda>host. host @ ''.yml'') ` set (keys rest)" by auto
  have "\<exists>d1. dir1 = Some d1 \<and> case_distinct d1 \<and>
          (map_of d1 ?file = None \<or>
           (\<exists>written. map_of d1 ?file = Some (MapDoc written) \<and>
              sort_key fst (remove_keys (case_insensitive written) (removal_names analysis)
                              written) = written))"
    using clean_host_file_Inr[OF s]
  proof
    assume "map_of d ?file = None \<and> dir1 = Some d"
    with Cons.prems(2) show ?thesis by simp
  next
    assume "\<exists>content host_data.
            map_of d ?file = Some content \<and>
            snd (load_yaml_file ?file content) = Dict host_data \<and>
            dir1 = Some (AList.update ?file
                     (save_yaml_file (remove_keys (case_insensitive host_data)
                                        (removal_names analysis) host_data)) d)"
    then obtain content host_data where c: "map_of d ?file = Some content"
      and hd: "snd (load_yaml_file ?file content) = Dict host_data"
      and d1: "dir1 = Some (AList.update ?file
                     (save_yaml_file (remove_keys (case_insensitive host_data)
                                        (removal_names analysis) host_data)) d)"
      by blast
    let ?written = "sort_key fst (remove_keys (case_insensitive host_data)
                                    (removal_names analysis) host_data)"
    from loaded_lower_distinct[OF Cons.prems(2) c hd]
    have ld: "distinct (map lower (keys host_data))" .
    then have "distinct (map lower (keys ?written))"
      by (intro lower_distinct_sort_key lower_distinct_remove_keys)
    with Cons.prems(2) have "case_distinct (AList.update ?file (MapDoc ?written) d)"
      by (rule case_distinct_update)
    moreover have "map_of (AList.update ?file (MapDoc ?written) d) ?file = Some (MapDoc ?written)"
      by (simp add: update_conv')
    moreover from cleaned_document_fixed[OF ld refl]
    have "sort_key fst (remove_keys (case_insensitive ?written) (removal_names analysis)
                          ?written) = ?written" .
    ultimately show ?thesis using d1 by (auto simp: save_yaml_file_def)
  qed
  then obtain d1 where d1: "dir1 = Some d1" and cd1: "case_distinct d1"
    and fx: "map_of d1 ?file = None \<or>
           (\<exists>written. map_of d1 ?file = Some (MapDoc written) \<and>
              sort_key fst (remove_keys (case_insensitive written) (removal_names analysis)
                              written) = written)"
    by blast
  from Cons.IH[OF dr cd1 l[unfolded d1]] obtain d' where d': "dir' = Some d'"
    and cd': "case_distinct d'"
    and again: "\<forall>out2. \<exists>out3. clean_host_vars_loop rest (out2, Some d') = Inr (out3, Some d')"
    by blast
  from clean_host_vars_loop_frame[OF l[unfolded d1]] d' nf
  have same: "map_of d' ?file = map_of d1 ?file" by auto
  have "\<exists>out3. clean_host_vars_loop (entry # rest) (out2, Some d') = Inr (out3, Some d')"
    for out2
  proof -
    have "\<exists>out2'. clean_host_file (host, analysis) (out2, Some d') = Inr (out2', Some d')"
      using fx
    proof
      assume "map_of d1 ?file = None"
      with same have "\<not> path_exists (Some d') ?file"
        by (simp add: path_exists_def keys_def map_of_eq_None_iff)
      from clean_host_file_missing[OF this] show ?thesis by blast
    next
      assume "\<exists>written. map_of d1 ?file = Some (MapDoc written) \<and>
              sort_key fst (remove_keys (case_insensitive written) (removal_names analysis)
                              written) = written"
      with same clean_host_file_fixed show ?thesis by metis
    qed
    then obtain out2' where
      "clean_host_file (host, analysis) (out2, Some d') = Inr (out2', Some d')" by blast
    with again entry show ?thesis by simp
  qed
  with d' cd' show ?case by blast
qed

text \<open>
  What the cleanup does keep of idempotence. When the report names no host twice and no document
  of \<open>host_vars\<close> has two keys that differ in letter case only, a second cleanup with the
  same report leaves the inventory of the first as it is.
\<close>

lemma clean_inventory_idempotent_if_case_distinct:
  assumes "clean_inventory fs analysis_results = Inr (out, fs')"
    and "distinct (keys analysis_results)"
    and "\<forall>d. host_vars_dir fs = Some d \<longrightarrow> case_distinct d"
  shows "\<exists>out'. clean_inventory fs' analysis_results = Inr (out', fs')"
proof -
  from assms(1) obtain out1 fs1 out2 where
    h: "clean_hosts fs analysis_results = Inr (out1, fs1)"
    and v: "clean_host_vars fs1 analysis_results = Inr (out2, fs')"
    by (auto simp: clean_inventory_def split: sum.splits)
  from h have hv1: "host_vars_dir fs1 = host_vars_dir fs"
    by (auto simp: clean_hosts_def Let_def split: option.splits)
  from v obtain dir' where
    l: "clean_host_vars_loop analysis_results ([], host_vars_dir fs1) = Inr (out2, dir')"
    and fs': "fs' = fs1\<lparr>host_vars_dir := dir'\<rparr>"
    by (auto simp: clean_host_vars_def split: sum.splits)
  from clean_hosts_idempotent[OF h] obtain out3 where
    h1: "clean_hosts fs1 analysis_results = Inr (out3, fs1)" by blast
  have h': "clean_hosts fs' analysis_results = Inr (out3, fs')"
  proof -
    from h1 obtain lines where ls: "hosts_file fs1 = Some lines"
      by (auto simp: clean_hosts_def split: option.splits)
    with h1 have o: "out3 = concat (map (fst \<circ> clean_line analysis_results) lines)
                       @ [CompletedHosts]"
      and e: "fs1\<lparr>hosts_file := Some (filter (keeps_line analysis_results) lines)\<rparr> = fs1"
      by (simp_all add: clean_hosts_def Let_def concat_clean_lines)
    from arg_cong[OF e, of hosts_file] ls
    have "filter (keeps_line analysis_results) lines = lines" by simp
    with ls o fs' show ?thesis
      by (simp add: clean_hosts_def Let_def concat_clean_lines)
  qed
  have "\<exists>out4. clean_host_vars_loop analysis_results ([], dir') = Inr (out4, dir')"
  proof (cases "host_vars_dir fs")
    case None
    have "clean_host_vars_loop r (o1, None) = Inr (o2, dir2) \<Longrightarrow> dir2 = None" for r o1 o2 dir2
      by (induction r arbitrary: o1)
         (auto simp: clean_host_file_def Let_def split: sum.splits)
    with l None hv1 show ?thesis by fastforce
  next
    case (Some d)
    with assms(3) have "case_distinct d" by simp
    from clean_host_vars_loop_idempotent[OF assms(2) this l[unfolded hv1 Some]]
    show ?thesis by blast
  qed
  then obtain out4 where "clean_host_vars_loop analysis_results ([], dir') = Inr (out4, dir')"
    by blast
  with fs' have "clean_host_vars fs' analysis_results = Inr (out4, fs')"
    by (simp add: clean_host_vars_def)
  with h' show ?thesis by (simp add: clean_inventory_def)
qed

end
